theory Spec2Isabelle
  imports Main
begin

section \<open>Stored text fields\<close>

text \<open>
  Several model fields of \<^verbatim>\<open>security/models.py\<close> are text columns holding JSON. Their
  getters all have the shape
  \<^verbatim>\<open>try: return json.loads(x) if x else <empty>  except json.JSONDecodeError: return <empty>\<close>.
  A column is therefore one of: the empty string, text that is not JSON, or the JSON
  encoding of a value. \<open>json.loads (json.dumps v) = v\<close> is taken for granted for the
  values stored here (lists and objects of strings and numbers), and the decoded value is
  typed as the documented format of the column.
\<close>

datatype 'a text_field = Blank | Malformed | Json 'a

section \<open>AccessControl\<close>

text \<open>
  The decoded \<^verbatim>\<open>time_restrictions\<close> object. The code reads the keys \<^verbatim>\<open>days\<close>,
  \<^verbatim>\<open>start_time\<close> and \<^verbatim>\<open>end_time\<close> only; \<open>other_keys\<close> lists any further keys, which
  matter only for the emptiness test \<^verbatim>\<open>if not restrictions\<close>.
\<close>

record restrictions =
  days :: "string list option"
  start_time :: "string option"
  end_time :: "string option"
  other_keys :: "string list"

record access_control =
  role :: string
  allowed_domains :: "string list text_field"
  blocked_domains :: "string list text_field"
  time_restrictions :: "restrictions text_field"
  is_active :: bool

definition empty_restrictions :: restrictions where
  "empty_restrictions = \<lparr>days = None, start_time = None, end_time = None, other_keys = []\<rparr>"

definition get_allowed_domains :: "access_control \<Rightarrow> string list" where
  "get_allowed_domains r = (case allowed_domains r of Json ds \<Rightarrow> ds | Blank \<Rightarrow> [] | Malformed \<Rightarrow> [])"

definition get_blocked_domains :: "access_control \<Rightarrow> string list" where
  "get_blocked_domains r = (case blocked_domains r of Json ds \<Rightarrow> ds | Blank \<Rightarrow> [] | Malformed \<Rightarrow> [])"

definition get_time_restrictions :: "access_control \<Rightarrow> restrictions" where
  "get_time_restrictions r =
     (case time_restrictions r of Json d \<Rightarrow> d | Blank \<Rightarrow> empty_restrictions
      | Malformed \<Rightarrow> empty_restrictions)"

definition is_domain_allowed :: "access_control \<Rightarrow> string \<Rightarrow> bool" where
  "is_domain_allowed r domain =
     (let allowed = get_allowed_domains r; blocked = get_blocked_domains r
      in if domain \<in> set blocked then False
         else if allowed = [] then True
         else domain \<in> set allowed)"

subsection \<open>Evaluation time\<close>

text \<open>
  \<^verbatim>\<open>is_time_allowed\<close> reads its \<^verbatim>\<open>current_time\<close> argument through
  \<^verbatim>\<open>strftime('%A')\<close> and \<^verbatim>\<open>strftime('%H:%M')\<close> only, so a datetime is modelled by
  its day of the week, hour (0..23) and minute (0..59). Day names are those of the C locale.
  No timezone conversion takes place.
\<close>

datatype weekday = Monday | Tuesday | Wednesday | Thursday | Friday | Saturday | Sunday

record datetime =
  weekday :: weekday
  hour :: nat
  minute :: nat

fun day_name :: "weekday \<Rightarrow> string" where
  "day_name Monday = ''Monday''"
| "day_name Tuesday = ''Tuesday''"
| "day_name Wednesday = ''Wednesday''"
| "day_name Thursday = ''Thursday''"
| "day_name Friday = ''Friday''"
| "day_name Saturday = ''Saturday''"
| "day_name Sunday = ''Sunday''"

definition strftime_A :: "datetime \<Rightarrow> string" where
  "strftime_A t = day_name (weekday t)"

definition two_digits :: "nat \<Rightarrow> string" where
  "two_digits n = [char_of (48 + n div 10), char_of (48 + n mod 10)]"

definition strftime_HM :: "datetime \<Rightarrow> string" where
  "strftime_HM t = two_digits (hour t) @ '':'' @ two_digits (minute t)"

text \<open>\<^verbatim>\<open>str.lower()\<close> on ASCII letters; other bytes are left as they are.\<close>

definition lower_char :: "char \<Rightarrow> char" where
  "lower_char c = (let n = (of_char c :: nat) in if 65 \<le> n \<and> n \<le> 90 then char_of (n + 32) else c)"

definition lower :: "string \<Rightarrow> string" where
  "lower s = map lower_char s"

text \<open>
  Python compares strings code point by code point, a proper prefix being smaller.
  On UTF-8 bytes this is the same order.
\<close>

fun str_le :: "string \<Rightarrow> string \<Rightarrow> bool" where
  "str_le [] ys = True"
| "str_le (x # xs) [] = False"
| "str_le (x # xs) (y # ys) =
     (if (of_char x :: nat) < of_char y then True
      else if (of_char y :: nat) < of_char x then False
      else str_le xs ys)"

definition is_time_allowed :: "access_control \<Rightarrow> datetime \<Rightarrow> bool" where
  "is_time_allowed r current_time =
     (let rs = get_time_restrictions r
      in if rs = empty_restrictions then True
         else if (case days rs of None \<Rightarrow> False
                  | Some ds \<Rightarrow> lower (strftime_A current_time) \<notin> set (map lower ds)) then False
         else if (case (start_time rs, end_time rs) of
                    (Some s, Some e) \<Rightarrow>
                      \<not> (str_le s (strftime_HM current_time) \<and> str_le (strftime_HM current_time) e)
                  | _ \<Rightarrow> False) then False
         else True)"

section \<open>SessionTracker\<close>

text \<open>Instants and durations are counted in microseconds, the resolution of a datetime.\<close>

type_synonym time = int

definition minutes :: "int \<Rightarrow> time" where
  "minutes m = m * 60 * 1000000"

datatype status = Active | Inactive | Expired | Terminated | Violation

text \<open>
  The values found in the \<^verbatim>\<open>details\<close> object of a violation: a string, a number, or the
  ISO rendering of an instant.
\<close>

datatype jvalue = Str string | Num int | Iso time

record violation_record =
  vtype :: string
  timestamp :: time
  details :: "(string \<times> jvalue) list"

text \<open>
  The columns of \<^verbatim>\<open>SessionTracker\<close>. The device foreign key is carried along by the
  session logic without being inspected and is left out. A row's position in the table
  stands for its primary key.
\<close>

record tracker =
  user :: nat
  session_key :: string
  login_time :: time
  logout_time :: "time option"
  last_activity :: time
  ip_address :: string
  user_agent :: string
  status :: status
  violation_count :: nat
  violation_details :: "violation_record list text_field"

datatype error = ValidationError | DatabaseError

text \<open>
  \<^verbatim>\<open>SessionTracker.clean\<close>, run by \<^verbatim>\<open>save\<close> through \<^verbatim>\<open>full_clean\<close> before anything is
  written: true when no \<^verbatim>\<open>ValidationError\<close> is raised.
\<close>

definition clean :: "tracker \<Rightarrow> bool" where
  "clean t =
     ((case logout_time t of None \<Rightarrow> True | Some lo \<Rightarrow> \<not> lo < login_time t)
      \<and> violation_details t \<noteq> Malformed)"

text \<open>
  \<^verbatim>\<open>save\<close> of a tracker whose row nobody else has touched: the row then equals the
  object, or the exception leaves the row as it was.
\<close>

definition save :: "tracker \<Rightarrow> error + tracker" where
  "save t = (if clean t then Inr t else Inl ValidationError)"

definition is_active_tracker :: "tracker \<Rightarrow> bool" where
  "is_active_tracker t = (status t = Active \<and> logout_time t = None)"

definition time_since_last_activity :: "tracker \<Rightarrow> time \<Rightarrow> time" where
  "time_since_last_activity t now = now - last_activity t"

text \<open>The assignments of \<^verbatim>\<open>update_activity\<close>, \<^verbatim>\<open>end_session\<close> and \<^verbatim>\<open>add_violation\<close>.\<close>

definition set_activity :: "tracker \<Rightarrow> time \<Rightarrow> tracker" where
  "set_activity t now = t\<lparr>last_activity := now\<rparr>"

definition set_ended :: "tracker \<Rightarrow> string \<Rightarrow> time \<Rightarrow> tracker" where
  "set_ended t reason now =
     t\<lparr>logout_time := Some now,
       status := (if reason = ''violation'' then Violation
                  else if reason = ''timeout'' then Expired
                  else Inactive)\<rparr>"

definition get_violations :: "tracker \<Rightarrow> violation_record list" where
  "get_violations t = (case violation_details t of Json vs \<Rightarrow> vs | Blank \<Rightarrow> [] | Malformed \<Rightarrow> [])"

definition set_violation :: "tracker \<Rightarrow> string \<Rightarrow> (string \<times> jvalue) list \<Rightarrow> time \<Rightarrow> tracker" where
  "set_violation t violation_type dt now =
     t\<lparr>violation_count := violation_count t + 1,
       violation_details :=
         Json ((case violation_details t of Json vs \<Rightarrow> vs | Blank \<Rightarrow> [] | Malformed \<Rightarrow> [])
               @ [\<lparr>vtype = violation_type, timestamp = now, details = dt\<rparr>])\<rparr>"

definition update_activity :: "tracker \<Rightarrow> time \<Rightarrow> error + tracker" where
  "update_activity t now = save (set_activity t now)"

definition end_session :: "tracker \<Rightarrow> string \<Rightarrow> time \<Rightarrow> error + tracker" where
  "end_session t reason now = save (set_ended t reason now)"

definition add_violation :: "tracker \<Rightarrow> string \<Rightarrow> (string \<times> jvalue) list \<Rightarrow> time \<Rightarrow> error + tracker" where
  "add_violation t violation_type dt now = save (set_violation t violation_type dt now)"

text \<open>
  \<^verbatim>\<open>inactive_duration.total_seconds() > timeout_minutes * 60\<close>: the quotient of the
  microsecond count by one million against a whole number of seconds, which is the
  comparison of the microsecond counts (exact in floating point for durations below 2^33
  seconds, some 270 years).
\<close>

definition is_session_expired :: "tracker \<Rightarrow> time \<Rightarrow> int \<Rightarrow> bool" where
  "is_session_expired t now timeout_minutes =
     (if status t \<noteq> Active then True
      else time_since_last_activity t now > minutes timeout_minutes)"

section \<open>Cleanup sweep of the model class\<close>

text \<open>
  \<^verbatim>\<open>SessionTracker.cleanup_expired_sessions\<close>. The queryset is iterated in the order of
  \<^verbatim>\<open>Meta.ordering = ['-login_time']\<close>; each selected row is loaded and ended by
  \<^verbatim>\<open>end_session('timeout')\<close>. An exception leaves the loop with the rows ended so far
  written. The clock is read once for the whole sweep.
\<close>

definition order_by_login_time :: "tracker list \<Rightarrow> nat list \<Rightarrow> nat list" where
  "order_by_login_time rows ids = sort_key (\<lambda>i. login_time (rows ! i)) ids"

definition expired_active_ids :: "tracker list \<Rightarrow> time \<Rightarrow> nat list" where
  "expired_active_ids rows cutoff_time =
     filter (\<lambda>i. status (rows ! i) = Active \<and> last_activity (rows ! i) < cutoff_time
                 \<and> logout_time (rows ! i) = None) [0..<length rows]"

fun end_each :: "nat list \<Rightarrow> time \<Rightarrow> tracker list \<Rightarrow> error option \<times> tracker list" where
  "end_each [] now rows = (None, rows)"
| "end_each (i # ids) now rows =
     (case end_session (rows ! i) ''timeout'' now of
        Inl e \<Rightarrow> (Some e, rows)
      | Inr t' \<Rightarrow> end_each ids now (rows[i := t']))"

definition cleanup_expired_sessions :: "tracker list \<Rightarrow> time \<Rightarrow> int \<Rightarrow> (error + nat) \<times> tracker list" where
  "cleanup_expired_sessions rows now timeout_minutes =
     (let cutoff_time = now - minutes timeout_minutes;
          expired_sessions = rev (order_by_login_time rows (expired_active_ids rows cutoff_time))
      in case end_each expired_sessions now rows of
           (Some e, rows') \<Rightarrow> (Inl e, rows')
         | (None, rows') \<Rightarrow> (Inr (length expired_sessions), rows'))"

section \<open>Settings, store and cache\<close>

record settings =
  MAX_CONCURRENT_SESSIONS :: int
  CONCURRENT_SESSION_POLICY :: string
  SESSION_TIMEOUT_MINUTES :: int

definition default_settings :: settings where
  "default_settings =
     \<lparr>MAX_CONCURRENT_SESSIONS = 1, CONCURRENT_SESSION_POLICY = ''deny'',
      SESSION_TIMEOUT_MINUTES = 30\<rparr>"

text \<open>
  The shared state: the \<^verbatim>\<open>SessionTracker\<close> table, the transport (Django) session table
  as pairs of session key and expiry date, and the cache entries
  \<^verbatim>\<open>session_count_{user.id}\<close>, each a count with the instant at which it lapses.
  The notification and activity entries of the cache are not modelled.
\<close>

record state =
  trackers :: "tracker list"
  sessions :: "(string \<times> time) list"
  session_count :: "nat \<Rightarrow> (nat \<times> time) option"

text \<open>
  Store operations that can raise. A request names the operations that fail while it is
  served; the \<^verbatim>\<open>except\<close> clause around each of them decides what happens then.
\<close>

datatype store_op =
  GetTracker | GetDevice | CreateTracker | ExistsOthers | CountActive | OldestActive
  | SaveTracker | DeleteSession

definition CACHE_TIMEOUT :: time where
  "CACHE_TIMEOUT = 300 * 1000000"

definition cache_get :: "(nat \<times> time) option \<Rightarrow> time \<Rightarrow> nat option" where
  "cache_get entry now =
     (case entry of None \<Rightarrow> None
      | Some (c, expires) \<Rightarrow> if expires \<le> now then None else Some c)"

definition delete_session :: "string \<Rightarrow> (string \<times> time) list \<Rightarrow> (string \<times> time) list" where
  "delete_session k ss = filter (\<lambda>s. fst s \<noteq> k) ss"

section \<open>SessionManager\<close>

definition get_active_sessions_for_user :: "tracker list \<Rightarrow> nat \<Rightarrow> nat list" where
  "get_active_sessions_for_user rows u =
     filter (\<lambda>i. user (rows ! i) = u \<and> status (rows ! i) = Active \<and> logout_time (rows ! i) = None)
       [0..<length rows]"

definition get_session_count_for_user ::
  "store_op list \<Rightarrow> state \<Rightarrow> nat \<Rightarrow> time \<Rightarrow> error + (nat \<times> state)" where
  "get_session_count_for_user fl st u now =
     (case cache_get (session_count st u) now of
        Some c \<Rightarrow> Inr (c, st)
      | None \<Rightarrow>
          if CountActive \<in> set fl then Inl DatabaseError
          else let c = length (get_active_sessions_for_user (trackers st) u)
               in Inr (c, st\<lparr>session_count := (session_count st)(u := Some (c, now + CACHE_TIMEOUT))\<rparr>))"

definition can_create_new_session ::
  "store_op list \<Rightarrow> settings \<Rightarrow> state \<Rightarrow> nat \<Rightarrow> bool \<Rightarrow> time \<Rightarrow> error + (bool \<times> state)" where
  "can_create_new_session fl cfg st u authenticated now =
     (if \<not> authenticated then Inr (False, st)
      else case get_session_count_for_user fl st u now of
             Inl e \<Rightarrow> Inl e
           | Inr (active_sessions, st') \<Rightarrow>
               Inr (int active_sessions < MAX_CONCURRENT_SESSIONS cfg, st'))"

text \<open>
  \<^verbatim>\<open>order_by('login_time').first()\<close>: rows with equal \<^verbatim>\<open>login_time\<close> come back in the
  order in which the table yields them, which is the order of the list.
\<close>

definition end_oldest_session_for_user ::
  "store_op list \<Rightarrow> state \<Rightarrow> nat \<Rightarrow> string \<Rightarrow> time \<Rightarrow> bool \<times> state" where
  "end_oldest_session_for_user fl st u reason now =
     (if OldestActive \<in> set fl then (False, st)
      else case order_by_login_time (trackers st) (get_active_sessions_for_user (trackers st) u) of
             [] \<Rightarrow> (False, st)
           | i # _ \<Rightarrow>
               (case end_session (trackers st ! i) reason now of
                  Inl e \<Rightarrow> (False, st)
                | Inr t' \<Rightarrow>
                    if SaveTracker \<in> set fl then (False, st)
                    else let st1 = st\<lparr>trackers := (trackers st)[i := t']\<rparr>
                         in if DeleteSession \<in> set fl then (False, st1)
                            else (True, st1\<lparr>sessions := delete_session (session_key t') (sessions st1),
                                            session_count := (session_count st1)(u := None)\<rparr>)))"

definition handle_concurrent_session_attempt ::
  "store_op list \<Rightarrow> settings \<Rightarrow> state \<Rightarrow> nat \<Rightarrow> bool \<Rightarrow> string \<Rightarrow> time
     \<Rightarrow> error + ((bool \<times> string) \<times> state)" where
  "handle_concurrent_session_attempt fl cfg st u authenticated current_session_key now =
     (case can_create_new_session fl cfg st u authenticated now of
        Inl e \<Rightarrow> Inl e
      | Inr (True, st1) \<Rightarrow> Inr ((True, ''Session allowed''), st1)
      | Inr (False, st1) \<Rightarrow>
          if CONCURRENT_SESSION_POLICY cfg = ''allow''
          then Inr ((True, ''Multiple sessions allowed''), st1)
          else if CONCURRENT_SESSION_POLICY cfg = ''replace_oldest''
          then (case end_oldest_session_for_user fl st1 u ''new_session_limit'' now of
                  (True, st2) \<Rightarrow> Inr ((True, ''Oldest session terminated, new session allowed''), st2)
                | (False, st2) \<Rightarrow> Inr ((False, ''Failed to terminate oldest session''), st2))
          else Inr ((False,
                 ''Multiple sessions not allowed. Please log out from other devices first.''), st1))"

subsection \<open>Cleanup sweep of the manager\<close>

text \<open>
  \<^verbatim>\<open>SessionManager.cleanup_expired_sessions\<close>. The loop runs inside
  \<^verbatim>\<open>transaction.atomic()\<close>: an exception rolls both tables back and the function returns
  the error dictionary. The accumulator holds the two tables and the two counters.
\<close>

record stats =
  expired_session_trackers :: nat
  django_sessions_cleaned :: nat
  orphaned_sessions_cleaned :: nat
  total_cleaned :: nat

definition expired_ids :: "tracker list \<Rightarrow> time \<Rightarrow> nat list" where
  "expired_ids rows cutoff_time =
     filter (\<lambda>i. status (rows ! i) = Active \<and> last_activity (rows ! i) < cutoff_time)
       [0..<length rows]"

fun expire_each ::
  "nat list \<Rightarrow> time \<Rightarrow> tracker list \<times> (string \<times> time) list \<times> nat \<times> nat
     \<Rightarrow> error + (tracker list \<times> (string \<times> time) list \<times> nat \<times> nat)" where
  "expire_each [] now acc = Inr acc"
| "expire_each (i # ids) now (rows, ss, expired_count, cleaned) =
     (case end_session (rows ! i) ''timeout'' now of
        Inl e \<Rightarrow> Inl e
      | Inr t' \<Rightarrow>
          if session_key t' \<in> fst ` set ss
          then expire_each ids now
                 (rows[i := t'], delete_session (session_key t') ss, expired_count + 1, cleaned + 1)
          else expire_each ids now (rows[i := t'], ss, expired_count + 1, cleaned))"

definition manager_cleanup_expired_sessions ::
  "settings \<Rightarrow> state \<Rightarrow> time \<Rightarrow> int option \<Rightarrow> (error + stats) \<times> state" where
  "manager_cleanup_expired_sessions cfg st now timeout_minutes =
     (let tm = (case timeout_minutes of None \<Rightarrow> SESSION_TIMEOUT_MINUTES cfg | Some m \<Rightarrow> m);
          cutoff_time = now - minutes tm;
          expired_sessions = rev (order_by_login_time (trackers st) (expired_ids (trackers st) cutoff_time))
      in case expire_each expired_sessions now (trackers st, sessions st, 0, 0) of
           Inl e \<Rightarrow> (Inl e, st)
         | Inr (rows', ss', expired_count, cleaned) \<Rightarrow>
             let orphaned_count = length (filter (\<lambda>s. snd s < now) ss')
             in (Inr \<lparr>expired_session_trackers = expired_count,
                      django_sessions_cleaned = cleaned,
                      orphaned_sessions_cleaned = orphaned_count,
                      total_cleaned = expired_count + orphaned_count\<rparr>,
                 \<lparr>trackers = rows', sessions = filter (\<lambda>s. \<not> snd s < now) ss',
                  session_count = (\<lambda>u. None)\<rparr>))"

section \<open>SessionSecurityMonitor\<close>

definition hours :: "int \<Rightarrow> time" where
  "hours h = h * 3600 * 1000000"

definition has_rapid_login_attempts :: "tracker list \<Rightarrow> nat \<Rightarrow> time \<Rightarrow> bool" where
  "has_rapid_login_attempts rows u now =
     (let ten_minutes_ago = now - minutes 10;
          recent_sessions = length (filter (\<lambda>t. user t = u \<and> ten_minutes_ago \<le> login_time t) rows)
      in recent_sessions > 5)"

definition has_unusual_ip_pattern :: "tracker list \<Rightarrow> tracker \<Rightarrow> time \<Rightarrow> bool" where
  "has_unusual_ip_pattern rows session_tracker now =
     (let recent_ips = remdups (map ip_address
            (filter (\<lambda>t. user t = user session_tracker \<and> now - hours 24 \<le> login_time t) rows))
      in length recent_ips > 3)"

definition has_unusual_session_duration :: "tracker \<Rightarrow> time \<Rightarrow> bool" where
  "has_unusual_session_duration session_tracker now =
     (if status session_tracker = Active
      then now - login_time session_tracker > hours 12
      else False)"

definition detect_suspicious_activity :: "tracker list \<Rightarrow> tracker \<Rightarrow> time \<Rightarrow> string list" where
  "detect_suspicious_activity rows session_tracker now =
     (if has_rapid_login_attempts rows (user session_tracker) now then [''rapid_login_attempts''] else [])
     @ (if has_unusual_ip_pattern rows session_tracker now then [''unusual_ip_pattern''] else [])
     @ (if has_unusual_session_duration session_tracker now then [''unusual_session_duration''] else [])
     @ (if violation_count session_tracker > 5 then [''excessive_violations''] else [])"

section \<open>SessionValidationMiddleware\<close>

text \<open>
  A request as the middleware sees it, with the reading of the clock while it is served
  and the store operations that raise while it is served.
\<close>

record request =
  req_user :: nat
  req_authenticated :: bool
  req_session_key :: string
  req_path :: string
  req_ajax :: bool
  req_ip :: string
  req_user_agent :: string
  req_now :: time
  req_faults :: "store_op list"

datatype response = Redirect_login | JsonResponse nat string

definition EXEMPT_URLS :: "string list" where
  "EXEMPT_URLS = [''/auth/login/'', ''/auth/logout/'', ''/auth/signup/'', ''/admin/'',
                  ''/static/'', ''/media/'']"

definition startswith :: "string \<Rightarrow> string \<Rightarrow> bool" where
  "startswith s p = (take (length p) s = p)"

definition is_exempt_url :: "string \<Rightarrow> bool" where
  "is_exempt_url p = list_ex (\<lambda>exempt. startswith p exempt) EXEMPT_URLS"

text \<open>
  \<^verbatim>\<open>save(update_fields=[...])\<close> of the request's tracker object: \<^verbatim>\<open>full_clean\<close> checks
  the object, then the named columns of row \<open>i\<close> take the object's values.
\<close>

definition end_fields :: "tracker \<Rightarrow> tracker \<Rightarrow> tracker" where
  "end_fields obj row = row\<lparr>logout_time := logout_time obj, status := status obj\<rparr>"

definition activity_fields :: "tracker \<Rightarrow> tracker \<Rightarrow> tracker" where
  "activity_fields obj row = row\<lparr>last_activity := last_activity obj\<rparr>"

definition violation_fields :: "tracker \<Rightarrow> tracker \<Rightarrow> tracker" where
  "violation_fields obj row =
     row\<lparr>violation_count := violation_count obj, violation_details := violation_details obj\<rparr>"

definition write_row ::
  "store_op list \<Rightarrow> nat \<Rightarrow> tracker \<Rightarrow> (tracker \<Rightarrow> tracker \<Rightarrow> tracker) \<Rightarrow> state \<Rightarrow> error + state" where
  "write_row fl i obj update_fields st =
     (if \<not> clean obj then Inl ValidationError
      else if SaveTracker \<in> set fl then Inl DatabaseError
      else Inr (st\<lparr>trackers := (trackers st)[i := update_fields obj (trackers st ! i)]\<rparr>))"

text \<open>
  Creating a tracker validates the new row: the session key must be present, at most 40
  characters long and not yet in the table. Any other failure of the insert (the address
  validator, the database) is the fault \<open>CreateTracker\<close>; a failure to find or make a
  device is the fault \<open>GetDevice\<close>.
\<close>

definition new_tracker :: "request \<Rightarrow> tracker" where
  "new_tracker rq =
     \<lparr>user = req_user rq, session_key = req_session_key rq, login_time = req_now rq,
      logout_time = None, last_activity = req_now rq, ip_address = req_ip rq,
      user_agent = take 500 (req_user_agent rq), status = Active, violation_count = 0,
      violation_details = Blank\<rparr>"

definition create_new_session_tracker :: "state \<Rightarrow> request \<Rightarrow> (nat \<times> tracker) option \<times> state" where
  "create_new_session_tracker st rq =
     (if GetDevice \<in> set (req_faults rq) then (None, st)
      else if CreateTracker \<in> set (req_faults rq)
              \<or> req_session_key rq = [] \<or> length (req_session_key rq) > 40
              \<or> req_session_key rq \<in> set (map session_key (trackers st))
      then (None, st)
      else (Some (length (trackers st), new_tracker rq),
            st\<lparr>trackers := trackers st @ [new_tracker rq]\<rparr>))"

definition get_or_create_session_tracker :: "state \<Rightarrow> request \<Rightarrow> (nat \<times> tracker) option \<times> state" where
  "get_or_create_session_tracker st rq =
     (if GetTracker \<in> set (req_faults rq) then (None, st)
      else case filter (\<lambda>i. session_key (trackers st ! i) = req_session_key rq
                            \<and> status (trackers st ! i) = Active) [0..<length (trackers st)] of
             [] \<Rightarrow> create_new_session_tracker st rq
           | [i] \<Rightarrow> (Some (i, trackers st ! i), st)
           | _ \<Rightarrow> (None, st))"

definition mw_is_session_expired :: "settings \<Rightarrow> tracker option \<Rightarrow> time \<Rightarrow> bool" where
  "mw_is_session_expired cfg session_tracker now =
     (case session_tracker of
        None \<Rightarrow> False
      | Some t \<Rightarrow> now - last_activity t > minutes (SESSION_TIMEOUT_MINUTES cfg))"

definition has_concurrent_sessions :: "store_op list \<Rightarrow> state \<Rightarrow> nat \<Rightarrow> string \<Rightarrow> bool" where
  "has_concurrent_sessions fl st u current_session_key =
     (if ExistsOthers \<in> set fl then False
      else list_ex (\<lambda>i. session_key (trackers st ! i) \<noteq> current_session_key)
             (get_active_sessions_for_user (trackers st) u))"

text \<open>\<^verbatim>\<open>logout(request)\<close> flushes the transport session of the request.\<close>

definition logout :: "state \<Rightarrow> request \<Rightarrow> state" where
  "logout st rq = st\<lparr>sessions := delete_session (req_session_key rq) (sessions st)\<rparr>"

definition handle_session_timeout ::
  "state \<Rightarrow> request \<Rightarrow> nat \<Rightarrow> tracker \<Rightarrow> response option \<times> state" where
  "handle_session_timeout st rq i session_tracker =
     (case write_row (req_faults rq) i (set_ended session_tracker ''timeout'' (req_now rq)) end_fields st of
        Inl e \<Rightarrow> (None, st)
      | Inr st1 \<Rightarrow>
          if DeleteSession \<in> set (req_faults rq) then (None, st1)
          else (Some (if req_ajax rq then JsonResponse 401 ''Session expired'' else Redirect_login),
                logout st1 rq))"

definition handle_concurrent_session ::
  "settings \<Rightarrow> state \<Rightarrow> request \<Rightarrow> nat \<Rightarrow> tracker \<Rightarrow> response option \<times> state" where
  "handle_concurrent_session cfg st rq i session_tracker =
     (case handle_concurrent_session_attempt (req_faults rq) cfg st (req_user rq)
             (req_authenticated rq) (req_session_key rq) (req_now rq) of
        Inl e \<Rightarrow> (None, st)
      | Inr ((True, message), st1) \<Rightarrow> (None, st1)
      | Inr ((False, message), st1) \<Rightarrow>
          (let obj1 = set_violation session_tracker ''concurrent_session''
                        [(''message'', Str message)] (req_now rq)
           in case write_row (req_faults rq) i obj1 violation_fields st1 of
                Inl e \<Rightarrow> (None, st1)
              | Inr st2 \<Rightarrow>
                  (case write_row (req_faults rq) i (set_ended obj1 ''violation'' (req_now rq))
                          end_fields st2 of
                     Inl e \<Rightarrow> (None, st2)
                   | Inr st3 \<Rightarrow>
                       if DeleteSession \<in> set (req_faults rq) then (None, st3)
                       else (Some (if req_ajax rq then JsonResponse 403 message else Redirect_login),
                             logout st3 rq))))"

definition update_activity_tracking ::
  "state \<Rightarrow> request \<Rightarrow> nat \<Rightarrow> tracker \<Rightarrow> tracker \<times> state" where
  "update_activity_tracking st rq i session_tracker =
     (let obj = set_activity session_tracker (req_now rq)
      in case write_row (req_faults rq) i obj activity_fields st of
           Inl e \<Rightarrow> (obj, st)
         | Inr st1 \<Rightarrow> (obj, st1))"

fun add_violations ::
  "store_op list \<Rightarrow> nat \<Rightarrow> (string \<times> jvalue) list \<Rightarrow> time \<Rightarrow> string list \<Rightarrow> tracker \<Rightarrow> state \<Rightarrow> state" where
  "add_violations fl i dt now [] obj st = st"
| "add_violations fl i dt now (activity # rest) obj st =
     (case write_row fl i (set_violation obj activity dt now) violation_fields st of
        Inl e \<Rightarrow> st
      | Inr st1 \<Rightarrow> add_violations fl i dt now rest (set_violation obj activity dt now) st1)"

definition monitor_suspicious_activity :: "state \<Rightarrow> request \<Rightarrow> nat \<Rightarrow> tracker \<Rightarrow> state" where
  "monitor_suspicious_activity st rq i session_tracker =
     add_violations (req_faults rq) i
       [(''detected_at'', Iso (req_now rq)), (''path'', Str (req_path rq)),
        (''user_agent'', Str (take 200 (req_user_agent rq)))]
       (req_now rq)
       (detect_suspicious_activity (trackers st) session_tracker (req_now rq))
       session_tracker st"

definition process_request :: "settings \<Rightarrow> state \<Rightarrow> request \<Rightarrow> response option \<times> state" where
  "process_request cfg st rq =
     (if is_exempt_url (req_path rq) then (None, st)
      else if \<not> req_authenticated rq then (None, st)
      else case get_or_create_session_tracker st rq of
             (None, st1) \<Rightarrow> (None, st1)
           | (Some (i, session_tracker), st1) \<Rightarrow>
               if mw_is_session_expired cfg (Some session_tracker) (req_now rq)
               then handle_session_timeout st1 rq i session_tracker
               else if has_concurrent_sessions (req_faults rq) st1 (req_user rq) (req_session_key rq)
               then handle_concurrent_session cfg st1 rq i session_tracker
               else case update_activity_tracking st1 rq i session_tracker of
                      (obj, st2) \<Rightarrow> (None, monitor_suspicious_activity st2 rq i obj))"

text \<open>Serving a sequence of requests one after the other, each as one step.\<close>

fun run :: "settings \<Rightarrow> state \<Rightarrow> request list \<Rightarrow> state" where
  "run cfg st [] = st"
| "run cfg st (rq # rqs) = run cfg (snd (process_request cfg st rq)) rqs"

definition initial_state :: state where
  "initial_state = \<lparr>trackers = [], sessions = [], session_count = (\<lambda>u. None)\<rparr>"

definition active_count :: "nat \<Rightarrow> state \<Rightarrow> nat" where
  "active_count u st =
     length (filter (\<lambda>t. user t = u \<and> status t = Active \<and> logout_time t = None) (trackers st))"

section \<open>Sequences of operations on one tracker\<close>

text \<open>
  The three operations that write a tracker, applied to its row one after the other. An
  operation that raises leaves the row as it was.
\<close>

datatype operation =
  EndSession string time
  | AddViolation string "(string \<times> jvalue) list" time
  | UpdateActivity time

fun apply_operation :: "tracker \<Rightarrow> operation \<Rightarrow> tracker" where
  "apply_operation t (EndSession reason now) =
     (case end_session t reason now of Inr t' \<Rightarrow> t' | Inl e \<Rightarrow> t)"
| "apply_operation t (AddViolation violation_type dt now) =
     (case add_violation t violation_type dt now of Inr t' \<Rightarrow> t' | Inl e \<Rightarrow> t)"
| "apply_operation t (UpdateActivity now) =
     (case update_activity t now of Inr t' \<Rightarrow> t' | Inl e \<Rightarrow> t)"

definition freshly_created :: "tracker \<Rightarrow> bool" where
  "freshly_created t =
     (status t = Active \<and> logout_time t = None \<and> violation_count t = 0
      \<and> violation_details t = Blank)"

section \<open>Example data\<close>

definition weekday_rule :: access_control where
  "weekday_rule =
     \<lparr>role = ''student'', allowed_domains = Json [], blocked_domains = Json [],
      time_restrictions =
        Json \<lparr>days = Some [''monday'', ''tuesday'', ''wednesday'', ''thursday'', ''friday''],
              start_time = Some ''09:00'', end_time = Some ''17:00'', other_keys = []\<rparr>,
      is_active = True\<rparr>"

definition saturday_10 :: datetime where
  "saturday_10 = \<lparr>weekday = Saturday, hour = 10, minute = 0\<rparr>"

definition tuesday_12 :: datetime where
  "tuesday_12 = \<lparr>weekday = Tuesday, hour = 12, minute = 0\<rparr>"

definition block_x :: access_control where
  "block_x =
     \<lparr>role = ''student'', allowed_domains = Json [], blocked_domains = Json [''x.com''],
      time_restrictions = Json empty_restrictions, is_active = True\<rparr>"

definition allow_edu :: access_control where
  "allow_edu =
     \<lparr>role = ''student'', allowed_domains = Json [''edu.com''], blocked_domains = Json [],
      time_restrictions = Json empty_restrictions, is_active = True\<rparr>"

definition no_lists :: access_control where
  "no_lists =
     \<lparr>role = ''student'', allowed_domains = Json [], blocked_domains = Json [],
      time_restrictions = Json empty_restrictions, is_active = True\<rparr>"

text \<open>A tracker of user 1 with the given key, login instant and last activity, active.\<close>

definition session :: "string \<Rightarrow> time \<Rightarrow> time \<Rightarrow> tracker" where
  "session k login act =
     \<lparr>user = 1, session_key = k, login_time = login, logout_time = None, last_activity = act,
      ip_address = ''127.0.0.1'', user_agent = [], status = Active, violation_count = 0,
      violation_details = Blank\<rparr>"

text \<open>A tracker that was ended as a violation at instant 10.\<close>

definition denied_session :: tracker where
  "denied_session = (session ''k'' 0 5)\<lparr>logout_time := Some 10, status := Violation\<rparr>"

definition example_operations :: "operation list" where
  "example_operations =
     [UpdateActivity 7, AddViolation ''concurrent_session'' [(''message'', Str ''denied'')] 8,
      EndSession ''violation'' 9, EndSession ''logout'' 2,
      AddViolation ''suspicious_response'' [] 12]"

text \<open>
  What the sweep is specified to do to one row: an active row whose last activity is older
  than the cutoff becomes expired with the logout time set, any other row stays as it is.
\<close>

definition sweep_spec :: "time \<Rightarrow> int \<Rightarrow> tracker \<Rightarrow> tracker" where
  "sweep_spec now timeout_minutes t =
     (if status t = Active \<and> last_activity t < now - minutes timeout_minutes
      then t\<lparr>logout_time := Some now, status := Expired\<rparr>
      else t)"

text \<open>Two active trackers at minute 45: one idle since minute 0, one since minute 40.\<close>

definition two_sessions :: "tracker list" where
  "two_sessions = [session ''expired_session'' 0 0, session ''active_session'' 0 (minutes 40)]"

text \<open>
  User 1 holds one active session \<open>s1\<close>; a request arrives at instant 10 under the fresh
  session key \<open>s2\<close>.
\<close>

definition one_active_state :: state where
  "one_active_state =
     \<lparr>trackers = [session ''s1'' 0 0], sessions = [(''s1'', hours 24), (''s2'', hours 24)],
      session_count = (\<lambda>u. None)\<rparr>"

definition second_login :: request where
  "second_login =
     \<lparr>req_user = 1, req_authenticated = True, req_session_key = ''s2'',
      req_path = ''/dashboard/'', req_ajax = False, req_ip = ''127.0.0.1'',
      req_user_agent = [], req_now = 10, req_faults = []\<rparr>"

text \<open>
  User 1 holds two active sessions with the same login time, \<open>b\<close> stored before \<open>a\<close>, under
  a limit of two sessions and the policy \<open>replace_oldest\<close>; a request arrives at instant 10
  under the fresh session key \<open>c\<close>.
\<close>

definition replace_settings :: settings where
  "replace_settings =
     \<lparr>MAX_CONCURRENT_SESSIONS = 2, CONCURRENT_SESSION_POLICY = ''replace_oldest'',
      SESSION_TIMEOUT_MINUTES = 30\<rparr>"

definition tied_state :: state where
  "tied_state =
     \<lparr>trackers = [session ''b'' 0 0, session ''a'' 0 0],
      sessions = [(''b'', hours 24), (''a'', hours 24), (''c'', hours 24)],
      session_count = (\<lambda>u. None)\<rparr>"

definition third_login :: request where
  "third_login = second_login\<lparr>req_session_key := ''c''\<rparr>"

text \<open>
  A cached session count of user \<open>u\<close>, if there is one, is at least one: the cache holds
  no count below a limit of one session.
\<close>

definition count_cache_ok :: "nat \<Rightarrow> state \<Rightarrow> bool" where
  "count_cache_ok u st = (case session_count st u of None \<Rightarrow> True | Some (c, expires) \<Rightarrow> 1 \<le> c)"

section \<open>Access rules\<close>

text \<open>
  Claim C7. For every access rule and every domain string, \<^verbatim>\<open>is_domain_allowed\<close> returns
  false if the domain is among the blocked domains; otherwise true if the list of allowed
  domains is empty; otherwise true exactly when the domain is among the allowed domains.
  The three examples of the specification are the last three conjuncts.
\<close>

theorem is_domain_allowed_spec:
  "(domain \<in> set (get_blocked_domains r) \<longrightarrow> \<not> is_domain_allowed r domain)
   \<and> (domain \<notin> set (get_blocked_domains r) \<and> get_allowed_domains r = [] \<longrightarrow>
        is_domain_allowed r domain)
   \<and> (domain \<notin> set (get_blocked_domains r) \<and> get_allowed_domains r \<noteq> [] \<longrightarrow>
        is_domain_allowed r domain = (domain \<in> set (get_allowed_domains r)))
   \<and> \<not> is_domain_allowed block_x ''x.com''
   \<and> \<not> is_domain_allowed allow_edu ''other.com''
   \<and> is_domain_allowed no_lists ''anything.com''"
proof -
  have "\<not> is_domain_allowed block_x ''x.com''"
    by (simp add: is_domain_allowed_def Let_def block_x_def get_blocked_domains_def)
  moreover have "\<not> is_domain_allowed allow_edu ''other.com''"
    by (simp add: is_domain_allowed_def Let_def allow_edu_def get_blocked_domains_def
        get_allowed_domains_def)
  moreover have "is_domain_allowed no_lists ''anything.com''"
    by (simp add: is_domain_allowed_def Let_def no_lists_def get_blocked_domains_def
        get_allowed_domains_def)
  ultimately show ?thesis
    by (simp add: is_domain_allowed_def Let_def)
qed

theorem is_domain_allowed_spec_witness:
  "''x.com'' \<in> set (get_blocked_domains block_x) \<and> \<not> is_domain_allowed block_x ''x.com''
   \<and> ''edu.com'' \<notin> set (get_blocked_domains allow_edu) \<and> get_allowed_domains allow_edu \<noteq> []
   \<and> is_domain_allowed allow_edu ''edu.com''
   \<and> get_allowed_domains no_lists = [] \<and> is_domain_allowed no_lists ''anything.com''"
  using is_domain_allowed_spec [of "''x.com''" block_x]
    is_domain_allowed_spec [of "''edu.com''" allow_edu]
    is_domain_allowed_spec [of "''anything.com''" no_lists]
  by (simp add: block_x_def allow_edu_def no_lists_def get_blocked_domains_def
      get_allowed_domains_def)

text \<open>
  Claim C6. For every access rule and every evaluation time, \<^verbatim>\<open>is_time_allowed\<close> returns
  true if the rule has no time restrictions; false if a list of days is present and the
  day of the week of the evaluation time is not in it (names compared in lower case); and,
  if start and end time are both present, true only when the \<^verbatim>\<open>HH:MM\<close> rendering of the
  evaluation time lies between them in string order, bounds included. With the window
  09:00 to 17:00 on Monday to Friday, Saturday 10:00 is refused and Tuesday 12:00 allowed.
\<close>

theorem is_time_allowed_spec:
  "(get_time_restrictions r = empty_restrictions \<longrightarrow> is_time_allowed r now)
   \<and> (\<forall>ds. days (get_time_restrictions r) = Some ds
          \<and> lower (strftime_A now) \<notin> set (map lower ds) \<longrightarrow> \<not> is_time_allowed r now)
   \<and> (\<forall>s e. start_time (get_time_restrictions r) = Some s
          \<and> end_time (get_time_restrictions r) = Some e \<and> is_time_allowed r now
          \<longrightarrow> str_le s (strftime_HM now) \<and> str_le (strftime_HM now) e)
   \<and> \<not> is_time_allowed weekday_rule saturday_10
   \<and> is_time_allowed weekday_rule tuesday_12"
proof (intro conjI allI impI)
  assume "get_time_restrictions r = empty_restrictions"
  then show "is_time_allowed r now" by (simp add: is_time_allowed_def)
next
  fix ds
  assume "days (get_time_restrictions r) = Some ds
    \<and> lower (strftime_A now) \<notin> set (map lower ds)"
  then show "\<not> is_time_allowed r now"
    by (auto simp: is_time_allowed_def Let_def empty_restrictions_def)
next
  fix s e
  assume a: "start_time (get_time_restrictions r) = Some s
    \<and> end_time (get_time_restrictions r) = Some e \<and> is_time_allowed r now"
  then have ne: "get_time_restrictions r \<noteq> empty_restrictions"
    by (auto simp: empty_restrictions_def)
  with a show "str_le s (strftime_HM now)"
    by (auto simp: is_time_allowed_def Let_def split: if_splits)
  from a ne show "str_le (strftime_HM now) e"
    by (auto simp: is_time_allowed_def Let_def split: if_splits)
next
  show "\<not> is_time_allowed weekday_rule saturday_10" by code_simp
next
  show "is_time_allowed weekday_rule tuesday_12" by code_simp
qed

theorem is_time_allowed_spec_witness:
  "days (get_time_restrictions weekday_rule)
     = Some [''monday'', ''tuesday'', ''wednesday'', ''thursday'', ''friday'']
   \<and> lower (strftime_A saturday_10) = ''saturday''
   \<and> \<not> is_time_allowed weekday_rule saturday_10
   \<and> is_time_allowed weekday_rule tuesday_12
   \<and> strftime_HM tuesday_12 = ''12:00''
   \<and> str_le ''09:00'' (strftime_HM tuesday_12)
   \<and> str_le (strftime_HM tuesday_12) ''17:00''
   \<and> is_time_allowed (weekday_rule\<lparr>time_restrictions := Blank\<rparr>) saturday_10"
proof -
  have d: "days (get_time_restrictions weekday_rule)
      = Some [''monday'', ''tuesday'', ''wednesday'', ''thursday'', ''friday'']"
    by (simp add: weekday_rule_def get_time_restrictions_def)
  have se: "start_time (get_time_restrictions weekday_rule) = Some ''09:00''"
    "end_time (get_time_restrictions weekday_rule) = Some ''17:00''"
    by (simp_all add: weekday_rule_def get_time_restrictions_def)
  have l: "lower (strftime_A saturday_10) = ''saturday''"
    by code_simp
  have hm: "strftime_HM tuesday_12 = ''12:00''"
    by code_simp
  have nin: "lower (strftime_A saturday_10)
      \<notin> set (map lower [''monday'', ''tuesday'', ''wednesday'', ''thursday'', ''friday''])"
    by code_simp
  have e: "get_time_restrictions (weekday_rule\<lparr>time_restrictions := Blank\<rparr>) = empty_restrictions"
    by (simp add: get_time_restrictions_def)
  note sat = is_time_allowed_spec [of weekday_rule saturday_10]
  note tue = is_time_allowed_spec [of weekday_rule tuesday_12]
  note blank = is_time_allowed_spec [of "weekday_rule\<lparr>time_restrictions := Blank\<rparr>" saturday_10]
  from sat d nin have 1: "\<not> is_time_allowed weekday_rule saturday_10"
    by blast
  from tue have 2: "is_time_allowed weekday_rule tuesday_12" by blast
  with tue se have 3: "str_le ''09:00'' (strftime_HM tuesday_12)"
    "str_le (strftime_HM tuesday_12) ''17:00''" by blast+
  from blank e have 4: "is_time_allowed (weekday_rule\<lparr>time_restrictions := Blank\<rparr>) saturday_10"
    by blast
  from d l hm 1 2 3 4 show ?thesis by blast
qed

section \<open>Expiry of a tracker\<close>

text \<open>
  Claim C5. For an active tracker, expiry detection with a timeout of \<open>m\<close> minutes (30 in
  the claim) answers true exactly when the time since the last activity is strictly more
  than the timeout, and the middleware's own test agrees with it; 45 minutes of
  inactivity are detected as expired under 30 minutes of timeout, 5 minutes are not.
\<close>

theorem is_session_expired_spec:
  "status t = Active \<Longrightarrow>
     is_session_expired t now m = (minutes m < now - last_activity t)
     \<and> mw_is_session_expired (cfg\<lparr>SESSION_TIMEOUT_MINUTES := m\<rparr>) (Some t) now
         = is_session_expired t now m
     \<and> (now - last_activity t = minutes 45 \<longrightarrow> is_session_expired t now 30)
     \<and> (now - last_activity t = minutes 5 \<longrightarrow> \<not> is_session_expired t now 30)"
  by (simp add: is_session_expired_def mw_is_session_expired_def time_since_last_activity_def
      minutes_def)

theorem is_session_expired_spec_witness:
  "status (session ''a'' 0 0) = Active
   \<and> is_session_expired (session ''a'' 0 0) (minutes 45) 30
   \<and> \<not> is_session_expired (session ''a'' 0 (minutes 40)) (minutes 45) 30
   \<and> \<not> is_session_expired (session ''a'' 0 0) (minutes 30) 30
   \<and> is_session_expired (session ''a'' 0 0) (minutes 30 + 1) 30
   \<and> mw_is_session_expired default_settings (Some (session ''a'' 0 0)) (minutes 45)"
  using is_session_expired_spec [of "session ''a'' 0 0" "minutes 45" 30 default_settings]
    is_session_expired_spec [of "session ''a'' 0 (minutes 40)" "minutes 45" 30 default_settings]
    is_session_expired_spec [of "session ''a'' 0 0" "minutes 30" 30 default_settings]
    is_session_expired_spec [of "session ''a'' 0 0" "minutes 30 + 1" 30 default_settings]
  by (simp add: session_def minutes_def default_settings_def)

text \<open>
  Claim C10. For every tracker whose status is not active, \<^verbatim>\<open>is_session_expired\<close> returns
  true whatever the last activity and whatever the timeout.
\<close>

theorem non_active_is_expired:
  "status t \<noteq> Active \<Longrightarrow> is_session_expired t now timeout_minutes"
  by (simp add: is_session_expired_def)

theorem non_active_is_expired_witness:
  "status denied_session \<noteq> Active
   \<and> last_activity denied_session = 5
   \<and> is_session_expired denied_session 5 30
   \<and> is_session_expired ((session ''a'' 0 0)\<lparr>status := Inactive\<rparr>) 0 1000000
   \<and> is_session_expired ((session ''a'' 0 0)\<lparr>status := Terminated\<rparr>) 0 30"
  using non_active_is_expired [of denied_session 5 30]
    non_active_is_expired [of "(session ''a'' 0 0)\<lparr>status := Inactive\<rparr>" 0 1000000]
    non_active_is_expired [of "(session ''a'' 0 0)\<lparr>status := Terminated\<rparr>" 0 30]
  by (simp add: denied_session_def session_def)

section \<open>Ending a session\<close>

lemma set_ended_fixed:
  "(t\<lparr>logout_time := a, status := b\<rparr> = t) = (logout_time t = a \<and> status t = b)"
  by (cases t) auto

text \<open>
  Claim C3 says that \<^verbatim>\<open>end_session\<close> on a tracker that is already ended is a no-op which
  keeps the logout time and the status. The tracker below was ended as a violation at
  instant 10; ending it again at instant 20 with the default reason stores logout time 20
  and status inactive.
\<close>

theorem end_session_twice_counterexample:
  "logout_time denied_session = Some 10 \<and> status denied_session = Violation
   \<and> end_session denied_session ''logout'' 20
       = Inr (denied_session\<lparr>logout_time := Some 20, status := Inactive\<rparr>)
   \<and> denied_session\<lparr>logout_time := Some 20, status := Inactive\<rparr> \<noteq> denied_session"
  by (simp add: denied_session_def session_def end_session_def set_ended_def save_def clean_def)

text \<open>
  Claim C3 as amended. \<^verbatim>\<open>end_session\<close> succeeds whenever the clock is not before the login
  time and the stored violation log is valid, on an ended tracker as on an active one. Each
  successful call sets the logout time to the clock and the status to the terminal status of
  its reason (violation, expired for a timeout, inactive otherwise), changes no other column,
  and leaves the tracker as it was only if it already held exactly that logout time and
  status.
\<close>

theorem end_session_overwrites:
  "(login_time t \<le> now \<and> violation_details t \<noteq> Malformed \<longrightarrow>
      (\<exists>t'. end_session t reason now = Inr t'))
   \<and> (\<forall>t'. end_session t reason now = Inr t' \<longrightarrow>
        logout_time t' = Some now
        \<and> status t' = (if reason = ''violation'' then Violation
                       else if reason = ''timeout'' then Expired else Inactive)
        \<and> status t' \<noteq> Active
        \<and> t' = t\<lparr>logout_time := logout_time t', status := status t'\<rparr>
        \<and> (t' = t \<longleftrightarrow> logout_time t = Some now \<and> status t = status t'))"
proof (intro conjI allI impI)
  assume "login_time t \<le> now \<and> violation_details t \<noteq> Malformed"
  then show "\<exists>t'. end_session t reason now = Inr t'"
    by (simp add: end_session_def set_ended_def save_def clean_def)
next
  fix t'
  assume "end_session t reason now = Inr t'"
  then have t': "t' = set_ended t reason now"
    by (simp add: end_session_def save_def split: if_splits)
  show "logout_time t' = Some now" by (simp add: t' set_ended_def)
  show "status t' = (if reason = ''violation'' then Violation
                       else if reason = ''timeout'' then Expired else Inactive)"
    by (simp add: t' set_ended_def)
  show "status t' \<noteq> Active" by (simp add: t' set_ended_def)
  show "t' = t\<lparr>logout_time := logout_time t', status := status t'\<rparr>"
    by (simp add: t' set_ended_def)
  show "(t' = t) = (logout_time t = Some now \<and> status t = status t')"
    unfolding t' set_ended_def by (simp only: set_ended_fixed) simp
qed

theorem end_session_overwrites_witness:
  "login_time denied_session \<le> 20 \<and> violation_details denied_session \<noteq> Malformed
   \<and> logout_time denied_session = Some 10 \<and> status denied_session = Violation
   \<and> end_session denied_session ''timeout'' 20
       = Inr (denied_session\<lparr>logout_time := Some 20, status := Expired\<rparr>)
   \<and> projr (end_session denied_session ''timeout'' 20) \<noteq> denied_session"
proof -
  have h: "login_time denied_session \<le> 20 \<and> violation_details denied_session \<noteq> Malformed"
    by (simp add: denied_session_def session_def)
  have l: "logout_time denied_session = Some 10" "status denied_session = Violation"
    by (simp_all add: denied_session_def)
  note ov = end_session_overwrites [of denied_session 20 "''timeout''"]
  from ov [THEN conjunct1] h
  obtain t' where t': "end_session denied_session ''timeout'' 20 = Inr t'" by blast
  note c = ov [THEN conjunct2, rule_format, OF t']
  from c have a: "logout_time t' = Some 20" by (rule conjunct1)
  from c [THEN conjunct2, THEN conjunct1] have b: "status t' = Expired" by simp
  from c [THEN conjunct2, THEN conjunct2, THEN conjunct2, THEN conjunct1]
  have e: "t' = denied_session\<lparr>logout_time := Some 20, status := Expired\<rparr>"
    unfolding a b .
  from c [THEN conjunct2, THEN conjunct2, THEN conjunct2, THEN conjunct2] l
  have n: "t' \<noteq> denied_session" by simp
  from t' h l e n show ?thesis by simp
qed

section \<open>Invariant of a tracker\<close>

lemma apply_operation_invariant:
  assumes "(logout_time t = None) = (status t = Active)"
    and "\<forall>lo. logout_time t = Some lo \<longrightarrow> login_time t \<le> lo"
    and "violation_count t = length (get_violations t)"
  shows "(logout_time (apply_operation t x) = None) = (status (apply_operation t x) = Active)
    \<and> (\<forall>lo. logout_time (apply_operation t x) = Some lo
          \<longrightarrow> login_time (apply_operation t x) \<le> lo)
    \<and> violation_count (apply_operation t x) = length (get_violations (apply_operation t x))"
proof (cases x)
  case (EndSession reason now)
  with assms show ?thesis
    by (auto simp: end_session_def set_ended_def save_def clean_def get_violations_def)
next
  case (AddViolation violation_type dt now)
  with assms show ?thesis
    by (auto simp: add_violation_def set_violation_def save_def clean_def get_violations_def
        split: text_field.splits)
next
  case (UpdateActivity now)
  with assms show ?thesis
    by (auto simp: update_activity_def set_activity_def save_def clean_def get_violations_def)
qed

lemma foldl_apply_operation_invariant:
  assumes "(logout_time t = None) = (status t = Active)"
    and "\<forall>lo. logout_time t = Some lo \<longrightarrow> login_time t \<le> lo"
    and "violation_count t = length (get_violations t)"
  shows "(logout_time (foldl apply_operation t xs) = None)
           = (status (foldl apply_operation t xs) = Active)
    \<and> (\<forall>lo. logout_time (foldl apply_operation t xs) = Some lo
          \<longrightarrow> login_time (foldl apply_operation t xs) \<le> lo)
    \<and> violation_count (foldl apply_operation t xs)
        = length (get_violations (foldl apply_operation t xs))"
  using assms
proof (induction xs arbitrary: t)
  case Nil
  then show ?case by simp
next
  case (Cons x xs)
  from apply_operation_invariant [OF Cons.prems, of x]
  show ?case using Cons.IH [of "apply_operation t x"] by simp
qed

text \<open>
  Claim C9. Every tracker reached from a freshly created one (active, no logout time, no
  violations) by any sequence of \<^verbatim>\<open>end_session\<close>, \<^verbatim>\<open>add_violation\<close> and \<^verbatim>\<open>update_activity\<close>,
  at any readings of the clock, satisfies: the logout time is null exactly when the status
  is active; the logout time is not before the login time when it is set; and the violation
  count is the length of the list that \<^verbatim>\<open>get_violations\<close> returns.
\<close>

theorem tracker_invariant:
  assumes "freshly_created t0"
  shows "(logout_time (foldl apply_operation t0 ops) = None)
           = (status (foldl apply_operation t0 ops) = Active)
    \<and> (\<forall>lo. logout_time (foldl apply_operation t0 ops) = Some lo
            \<longrightarrow> login_time (foldl apply_operation t0 ops) \<le> lo)
    \<and> violation_count (foldl apply_operation t0 ops)
        = length (get_violations (foldl apply_operation t0 ops))"
proof (rule foldl_apply_operation_invariant)
  from assms show "(logout_time t0 = None) = (status t0 = Active)"
    by (simp add: freshly_created_def)
  from assms show "\<forall>lo. logout_time t0 = Some lo \<longrightarrow> login_time t0 \<le> lo"
    by (simp add: freshly_created_def)
  from assms show "violation_count t0 = length (get_violations t0)"
    by (simp add: freshly_created_def get_violations_def)
qed

theorem tracker_invariant_witness:
  "freshly_created (session ''a'' 5 5)
   \<and> status (foldl apply_operation (session ''a'' 5 5) example_operations) = Violation
   \<and> logout_time (foldl apply_operation (session ''a'' 5 5) example_operations) = Some 9
   \<and> login_time (foldl apply_operation (session ''a'' 5 5) example_operations) = 5
   \<and> violation_count (foldl apply_operation (session ''a'' 5 5) example_operations) = 2
   \<and> length (get_violations (foldl apply_operation (session ''a'' 5 5) example_operations)) = 2"
proof -
  have f: "freshly_created (session ''a'' 5 5)"
    by (simp add: freshly_created_def session_def)
  have v: "foldl apply_operation (session ''a'' 5 5) example_operations =
     (session ''a'' 5 7)\<lparr>logout_time := Some 9, status := Violation, violation_count := 2,
       violation_details :=
         Json [\<lparr>vtype = ''concurrent_session'', timestamp = 8,
                 details = [(''message'', Str ''denied'')]\<rparr>,
               \<lparr>vtype = ''suspicious_response'', timestamp = 12, details = []\<rparr>]\<rparr>"
    by (simp add: example_operations_def session_def end_session_def add_violation_def
        update_activity_def set_ended_def set_violation_def set_activity_def save_def clean_def)
  from tracker_invariant [OF f, of example_operations] f v show ?thesis
    by (simp add: session_def)
qed

section \<open>The cleanup sweeps\<close>

lemma end_each_success:
  assumes "distinct ids"
    and "\<forall>i\<in>set ids. i < length rows \<and> clean (set_ended (rows ! i) ''timeout'' now)"
  shows "\<exists>rows'. end_each ids now rows = (None, rows') \<and> length rows' = length rows
     \<and> (\<forall>j<length rows. rows' ! j
           = (if j \<in> set ids then set_ended (rows ! j) ''timeout'' now else rows ! j))"
  using assms
proof (induction ids arbitrary: rows)
  case Nil
  then show ?case by simp
next
  case (Cons i ids)
  let ?t = "set_ended (rows ! i) ''timeout'' now"
  let ?rows1 = "rows[i := ?t]"
  from Cons.prems have e: "end_session (rows ! i) ''timeout'' now = Inr ?t"
    by (simp add: end_session_def save_def)
  from Cons.prems have d: "distinct ids" and ni: "i \<notin> set ids" and il: "i < length rows"
    by simp_all
  have "\<forall>k\<in>set ids. k < length ?rows1 \<and> clean (set_ended (?rows1 ! k) ''timeout'' now)"
  proof
    fix k assume k: "k \<in> set ids"
    with ni have "k \<noteq> i" by blast
    then have "?rows1 ! k = rows ! k" by simp
    with Cons.prems k show "k < length ?rows1 \<and> clean (set_ended (?rows1 ! k) ''timeout'' now)"
      by simp
  qed
  from Cons.IH [OF d this] obtain rows' where
    r: "end_each ids now ?rows1 = (None, rows')" "length rows' = length rows"
      "\<forall>j<length rows. rows' ! j
           = (if j \<in> set ids then set_ended (?rows1 ! j) ''timeout'' now else ?rows1 ! j)"
    by auto
  have "\<forall>j<length rows. rows' ! j
           = (if j \<in> set (i # ids) then set_ended (rows ! j) ''timeout'' now else rows ! j)"
  proof (intro allI impI)
    fix j assume j: "j < length rows"
    show "rows' ! j = (if j \<in> set (i # ids) then set_ended (rows ! j) ''timeout'' now else rows ! j)"
    proof (cases "j = i")
      case True
      with r(3) j ni il show ?thesis by simp
    next
      case False
      with r(3) j show ?thesis by simp
    qed
  qed
  with r e show ?case by simp
qed

lemma filter_positions:
  "map ((!) rows) (filter (\<lambda>i. P (rows ! i)) [0..<length rows]) = filter P rows"
proof -
  have "filter P rows = filter P (map ((!) rows) [0..<length rows])"
    by (simp add: map_nth)
  also have "\<dots> = map ((!) rows) (filter (P \<circ> (!) rows) [0..<length rows])"
    by (rule filter_map)
  finally show ?thesis by (simp add: comp_def)
qed

lemma length_filter_positions:
  "length (filter (\<lambda>i. P (rows ! i)) [0..<length rows]) = length (filter P rows)"
  using arg_cong [OF filter_positions [of rows P], of length] by simp

lemma set_ended_timeout:
  "set_ended t ''timeout'' now = t\<lparr>logout_time := Some now, status := Expired\<rparr>"
  by (simp add: set_ended_def)

lemma set_order_by_login_time [simp]:
  "set (order_by_login_time rows ids) = set ids"
  by (simp add: order_by_login_time_def)

lemma distinct_order_by_login_time [simp]:
  "distinct (order_by_login_time rows ids) = distinct ids"
  by (simp add: order_by_login_time_def)

lemma cleanup_expired_sessions_rows:
  assumes "\<forall>t\<in>set rows. status t = Active \<and> last_activity t < now - minutes m \<longrightarrow>
             logout_time t = None \<and> login_time t \<le> now \<and> violation_details t \<noteq> Malformed"
  shows "snd (cleanup_expired_sessions rows now m) = map (sweep_spec now m) rows"
    and "fst (cleanup_expired_sessions rows now m)
           = Inr (length (filter (\<lambda>t. status t = Active \<and> last_activity t < now - minutes m) rows))"
proof -
  let ?ids = "rev (order_by_login_time rows (expired_active_ids rows (now - minutes m)))"
  have s: "set ?ids = {i. i < length rows \<and> status (rows ! i) = Active
             \<and> last_activity (rows ! i) < now - minutes m \<and> logout_time (rows ! i) = None}"
    by (auto simp: expired_active_ids_def)
  have d: "distinct ?ids" by (simp add: expired_active_ids_def)
  have "\<forall>i\<in>set ?ids. i < length rows \<and> clean (set_ended (rows ! i) ''timeout'' now)"
  proof
    fix i assume "i \<in> set ?ids"
    with s have i: "i < length rows" "status (rows ! i) = Active"
      "last_activity (rows ! i) < now - minutes m" by auto
    then have "rows ! i \<in> set rows" by simp
    with assms i have "login_time (rows ! i) \<le> now \<and> violation_details (rows ! i) \<noteq> Malformed"
      by blast
    with i show "i < length rows \<and> clean (set_ended (rows ! i) ''timeout'' now)"
      by (simp add: clean_def set_ended_def)
  qed
  from end_each_success [OF d this] obtain rows' where
    r: "end_each ?ids now rows = (None, rows')" "length rows' = length rows"
      "\<forall>j<length rows. rows' ! j
           = (if j \<in> set ?ids then set_ended (rows ! j) ''timeout'' now else rows ! j)"
    by auto
  have "rows' = map (sweep_spec now m) rows"
  proof (rule nth_equalityI)
    show "length rows' = length (map (sweep_spec now m) rows)" using r by simp
  next
    fix j assume "j < length rows'"
    with r have j: "j < length rows" by simp
    then have in_set: "rows ! j \<in> set rows" by simp
    from j r have "rows' ! j = (if j \<in> set ?ids then set_ended (rows ! j) ''timeout'' now else rows ! j)"
      by blast
    also have "\<dots> = sweep_spec now m (rows ! j)"
      using j assms in_set unfolding s by (auto simp: sweep_spec_def set_ended_timeout)
    finally show "rows' ! j = map (sweep_spec now m) rows ! j" using j by simp
  qed
  with r show "snd (cleanup_expired_sessions rows now m) = map (sweep_spec now m) rows"
    by (simp add: cleanup_expired_sessions_def Let_def)
  have "filter (\<lambda>t. status t = Active \<and> last_activity t < now - minutes m \<and> logout_time t = None) rows
      = filter (\<lambda>t. status t = Active \<and> last_activity t < now - minutes m) rows"
    using assms by (intro filter_cong) auto
  then have "length ?ids
      = length (filter (\<lambda>t. status t = Active \<and> last_activity t < now - minutes m) rows)"
    using length_filter_positions
      [of "\<lambda>t. status t = Active \<and> last_activity t < now - minutes m \<and> logout_time t = None" rows]
    by (simp add: order_by_login_time_def expired_active_ids_def)
  with r show "fst (cleanup_expired_sessions rows now m)
           = Inr (length (filter (\<lambda>t. status t = Active \<and> last_activity t < now - minutes m) rows))"
    by (simp add: cleanup_expired_sessions_def Let_def)
qed

lemma expire_each_success:
  assumes "distinct ids"
    and "\<forall>i\<in>set ids. i < length rows \<and> clean (set_ended (rows ! i) ''timeout'' now)"
  shows "\<exists>rows' ss' n' c'. expire_each ids now (rows, ss, n, c) = Inr (rows', ss', n', c')
     \<and> length rows' = length rows \<and> n' = n + length ids
     \<and> (\<forall>j<length rows. rows' ! j
           = (if j \<in> set ids then set_ended (rows ! j) ''timeout'' now else rows ! j))"
  using assms
proof (induction ids arbitrary: rows ss n c)
  case Nil
  then show ?case by simp
next
  case (Cons i ids)
  let ?t = "set_ended (rows ! i) ''timeout'' now"
  let ?rows1 = "rows[i := ?t]"
  from Cons.prems have e: "end_session (rows ! i) ''timeout'' now = Inr ?t"
    by (simp add: end_session_def save_def)
  from Cons.prems have d: "distinct ids" and ni: "i \<notin> set ids" and il: "i < length rows"
    by simp_all
  have pre: "\<forall>k\<in>set ids. k < length ?rows1 \<and> clean (set_ended (?rows1 ! k) ''timeout'' now)"
  proof
    fix k assume k: "k \<in> set ids"
    with ni have "k \<noteq> i" by blast
    then have "?rows1 ! k = rows ! k" by simp
    with Cons.prems k show "k < length ?rows1 \<and> clean (set_ended (?rows1 ! k) ''timeout'' now)"
      by simp
  qed
  define ss1 where "ss1 = (if session_key ?t \<in> fst ` set ss then delete_session (session_key ?t) ss else ss)"
  define c1 where "c1 = (if session_key ?t \<in> fst ` set ss then c + 1 else c)"
  have step: "expire_each (i # ids) now (rows, ss, n, c) = expire_each ids now (?rows1, ss1, n + 1, c1)"
    using e by (simp add: ss1_def c1_def)
  from Cons.IH [OF d pre, of ss1 "n + 1" c1] obtain rows' ss' n' c' where
    r: "expire_each ids now (?rows1, ss1, n + 1, c1) = Inr (rows', ss', n', c')"
      "length rows' = length rows" "n' = n + 1 + length ids"
      "\<forall>j<length rows. rows' ! j
           = (if j \<in> set ids then set_ended (?rows1 ! j) ''timeout'' now else ?rows1 ! j)"
    by auto
  have "\<forall>j<length rows. rows' ! j
           = (if j \<in> set (i # ids) then set_ended (rows ! j) ''timeout'' now else rows ! j)"
  proof (intro allI impI)
    fix j assume j: "j < length rows"
    show "rows' ! j = (if j \<in> set (i # ids) then set_ended (rows ! j) ''timeout'' now else rows ! j)"
    proof (cases "j = i")
      case True
      with r(4) j ni il show ?thesis by simp
    next
      case False
      with r(4) j show ?thesis by simp
    qed
  qed
  with r step show ?case by simp
qed

lemma manager_cleanup_expired_sessions_rows:
  assumes "\<forall>t\<in>set (trackers st). status t = Active \<and> last_activity t < now - minutes m \<longrightarrow>
             login_time t \<le> now \<and> violation_details t \<noteq> Malformed"
  shows "trackers (snd (manager_cleanup_expired_sessions cfg st now (Some m)))
           = map (sweep_spec now m) (trackers st)"
    and "\<exists>s. fst (manager_cleanup_expired_sessions cfg st now (Some m)) = Inr s
           \<and> expired_session_trackers s
              = length (filter (\<lambda>t. status t = Active \<and> last_activity t < now - minutes m) (trackers st))"
proof -
  let ?rows = "trackers st"
  let ?ids = "rev (order_by_login_time ?rows (expired_ids ?rows (now - minutes m)))"
  have s: "set ?ids = {i. i < length ?rows \<and> status (?rows ! i) = Active
             \<and> last_activity (?rows ! i) < now - minutes m}"
    by (auto simp: expired_ids_def)
  have d: "distinct ?ids" by (simp add: expired_ids_def)
  have "\<forall>i\<in>set ?ids. i < length ?rows \<and> clean (set_ended (?rows ! i) ''timeout'' now)"
  proof
    fix i assume "i \<in> set ?ids"
    with s have i: "i < length ?rows" "status (?rows ! i) = Active"
      "last_activity (?rows ! i) < now - minutes m" by auto
    then have "?rows ! i \<in> set ?rows" by simp
    with assms i have "login_time (?rows ! i) \<le> now \<and> violation_details (?rows ! i) \<noteq> Malformed"
      by blast
    with i show "i < length ?rows \<and> clean (set_ended (?rows ! i) ''timeout'' now)"
      by (simp add: clean_def set_ended_def)
  qed
  from expire_each_success [OF d this, of "sessions st" 0 0] obtain rows' ss' n' c' where
    r: "expire_each ?ids now (?rows, sessions st, 0, 0) = Inr (rows', ss', n', c')"
      "length rows' = length ?rows" "n' = 0 + length ?ids"
      "\<forall>j<length ?rows. rows' ! j
           = (if j \<in> set ?ids then set_ended (?rows ! j) ''timeout'' now else ?rows ! j)"
    by blast
  have "rows' = map (sweep_spec now m) ?rows"
  proof (rule nth_equalityI)
    show "length rows' = length (map (sweep_spec now m) ?rows)" using r by simp
  next
    fix j assume "j < length rows'"
    with r have j: "j < length ?rows" by simp
    from j r have "rows' ! j = (if j \<in> set ?ids then set_ended (?rows ! j) ''timeout'' now else ?rows ! j)"
      by blast
    also have "\<dots> = sweep_spec now m (?rows ! j)"
      using j unfolding s by (auto simp: sweep_spec_def set_ended_timeout)
    finally show "rows' ! j = map (sweep_spec now m) ?rows ! j" using j by simp
  qed
  with r show "trackers (snd (manager_cleanup_expired_sessions cfg st now (Some m)))
           = map (sweep_spec now m) (trackers st)"
    by (simp add: manager_cleanup_expired_sessions_def Let_def)
  have "length ?ids
      = length (filter (\<lambda>t. status t = Active \<and> last_activity t < now - minutes m) ?rows)"
    using length_filter_positions
      [of "\<lambda>t. status t = Active \<and> last_activity t < now - minutes m" ?rows]
    by (simp add: order_by_login_time_def expired_ids_def)
  with r show "\<exists>s. fst (manager_cleanup_expired_sessions cfg st now (Some m)) = Inr s
           \<and> expired_session_trackers s
              = length (filter (\<lambda>t. status t = Active \<and> last_activity t < now - minutes m) (trackers st))"
    by (simp add: manager_cleanup_expired_sessions_def Let_def)
qed

lemma sweep_spec_idem: "sweep_spec now m (sweep_spec now m t) = sweep_spec now m t"
  by (simp add: sweep_spec_def)

lemma sweep_spec_settled:
  "\<not> (status (sweep_spec now m t) = Active \<and> last_activity (sweep_spec now m t) < now - minutes m)"
  by (simp add: sweep_spec_def)


text \<open>
  Claim C8. On a table whose idle active rows are well formed (no logout time yet, a login
  time not after the clock, a valid violation log), both cleanup sweeps, run with a timeout
  of \<open>m\<close> minutes (30 in the claim), turn exactly the rows that are active with a last
  activity older than the cutoff into expired rows with the logout time set, and leave
  every other row as it is. A second sweep at the same instant changes no row. With
  \<open>m = 30\<close>, a row 45 minutes idle becomes expired and a row 5 minutes idle stays active.
\<close>

theorem cleanup_sweep_spec:
  assumes "\<forall>t\<in>set rows. status t = Active \<and> last_activity t < now - minutes m \<longrightarrow>
             logout_time t = None \<and> login_time t \<le> now \<and> violation_details t \<noteq> Malformed"
    and "trackers st = rows"
  shows "snd (cleanup_expired_sessions rows now m) = map (sweep_spec now m) rows
    \<and> trackers (snd (manager_cleanup_expired_sessions cfg st now (Some m)))
        = map (sweep_spec now m) rows
    \<and> snd (cleanup_expired_sessions (snd (cleanup_expired_sessions rows now m)) now m)
        = snd (cleanup_expired_sessions rows now m)
    \<and> trackers (snd (manager_cleanup_expired_sessions cfg
          (snd (manager_cleanup_expired_sessions cfg st now (Some m))) now (Some m)))
        = trackers (snd (manager_cleanup_expired_sessions cfg st now (Some m)))"
proof -
  let ?rows' = "map (sweep_spec now m) rows"
  let ?st' = "snd (manager_cleanup_expired_sessions cfg st now (Some m))"
  have settled: "\<forall>t\<in>set ?rows'. status t = Active \<and> last_activity t < now - minutes m \<longrightarrow>
             logout_time t = None \<and> login_time t \<le> now \<and> violation_details t \<noteq> Malformed"
    using sweep_spec_settled by auto
  have again: "map (sweep_spec now m) ?rows' = ?rows'"
    by (simp add: sweep_spec_idem)
  have 1: "snd (cleanup_expired_sessions rows now m) = ?rows'"
    using assms(1) by (rule cleanup_expired_sessions_rows)
  have 2: "trackers ?st' = ?rows'"
    using manager_cleanup_expired_sessions_rows(1) [of st now m cfg] assms by simp
  have 3: "snd (cleanup_expired_sessions ?rows' now m) = ?rows'"
    using cleanup_expired_sessions_rows(1) [OF settled] again by simp
  have "\<forall>t\<in>set (trackers ?st'). status t = Active \<and> last_activity t < now - minutes m \<longrightarrow>
             login_time t \<le> now \<and> violation_details t \<noteq> Malformed"
    using settled 2 by simp
  from manager_cleanup_expired_sessions_rows(1) [OF this, of cfg]
  have 4: "trackers (snd (manager_cleanup_expired_sessions cfg ?st' now (Some m))) = ?rows'"
    using 2 again by simp
  from 1 2 3 4 show ?thesis by simp
qed

theorem cleanup_sweep_spec_witness:
  "map last_activity two_sessions = [minutes 45 - minutes 45, minutes 45 - minutes 5]
   \<and> map status two_sessions = [Active, Active]
   \<and> snd (cleanup_expired_sessions two_sessions (minutes 45) 30)
       = [(session ''expired_session'' 0 0)\<lparr>logout_time := Some (minutes 45), status := Expired\<rparr>,
          session ''active_session'' 0 (minutes 40)]
   \<and> trackers (snd (manager_cleanup_expired_sessions default_settings
         \<lparr>trackers = two_sessions, sessions = [], session_count = (\<lambda>u. None)\<rparr> (minutes 45) (Some 30)))
       = [(session ''expired_session'' 0 0)\<lparr>logout_time := Some (minutes 45), status := Expired\<rparr>,
          session ''active_session'' 0 (minutes 40)]"
proof -
  have h: "\<forall>t\<in>set two_sessions. status t = Active \<and> last_activity t < minutes 45 - minutes 30 \<longrightarrow>
      logout_time t = None \<and> login_time t \<le> minutes 45 \<and> violation_details t \<noteq> Malformed"
    by (simp add: two_sessions_def session_def minutes_def)
  have t: "trackers \<lparr>trackers = two_sessions, sessions = [], session_count = (\<lambda>u. None)\<rparr> = two_sessions"
    by simp
  have m: "map (sweep_spec (minutes 45) 30) two_sessions
     = [(session ''expired_session'' 0 0)\<lparr>logout_time := Some (minutes 45), status := Expired\<rparr>,
          session ''active_session'' 0 (minutes 40)]"
    by (simp add: two_sessions_def sweep_spec_def session_def minutes_def)
  have a: "map last_activity two_sessions = [minutes 45 - minutes 45, minutes 45 - minutes 5]
      \<and> map status two_sessions = [Active, Active]"
    by (simp add: two_sessions_def session_def minutes_def)
  from cleanup_sweep_spec [OF h t, of default_settings] a m show ?thesis by simp
qed

section \<open>One active session under the deny policy\<close>

subsection \<open>Rows and positions\<close>

lemma length_filter_update_le:
  "\<not> P y \<Longrightarrow> length (filter P (xs[i := y])) \<le> length (filter P xs)"
proof (induction xs arbitrary: i)
  case Nil
  then show ?case by simp
next
  case (Cons x xs)
  then show ?case by (cases i) (auto simp: le_SucI)
qed

lemma length_filter_update_same:
  "i < length xs \<Longrightarrow> P y = P (xs ! i) \<Longrightarrow> length (filter P (xs[i := y])) = length (filter P xs)"
proof (induction xs arbitrary: i)
  case Nil
  then show ?case by simp
next
  case (Cons x xs)
  then show ?case by (cases i) auto
qed

lemma active_count_update_le:
  "\<not> (user y = u \<and> status y = Active \<and> logout_time y = None) \<Longrightarrow>
   active_count u (st\<lparr>trackers := (trackers st)[i := y]\<rparr>) \<le> active_count u st"
  unfolding active_count_def
  using length_filter_update_le
    [of "\<lambda>t. user t = u \<and> status t = Active \<and> logout_time t = None" y "trackers st" i]
  by simp

lemma active_count_update_same:
  assumes "user y = user (trackers st ! i)" "status y = status (trackers st ! i)"
    "logout_time y = logout_time (trackers st ! i)"
  shows "active_count u (st\<lparr>trackers := (trackers st)[i := y]\<rparr>) = active_count u st"
proof (cases "i < length (trackers st)")
  case True
  with assms show ?thesis
    unfolding active_count_def
    using length_filter_update_same
      [of i "trackers st" "\<lambda>t. user t = u \<and> status t = Active \<and> logout_time t = None" y]
    by simp
next
  case False
  then have "(trackers st)[i := y] = trackers st" by (simp add: list_update_beyond)
  then show ?thesis by (simp add: active_count_def)
qed

lemma write_row_result:
  assumes "write_row fl i obj f st = Inr st'"
  shows "st' = st\<lparr>trackers := (trackers st)[i := f obj (trackers st ! i)]\<rparr>"
  using assms by (simp add: write_row_def split: if_splits)

lemma write_row_ok:
  "clean obj \<Longrightarrow> write_row [] i obj f st = Inr (st\<lparr>trackers := (trackers st)[i := f obj (trackers st ! i)]\<rparr>)"
  by (simp add: write_row_def)

subsection \<open>The handlers\<close>

lemma handle_session_timeout_count:
  assumes "handle_session_timeout st rq i t = (r, st')"
  shows "active_count u st' \<le> active_count u st \<and> session_count st' = session_count st"
proof (cases "write_row (req_faults rq) i (set_ended t ''timeout'' (req_now rq)) end_fields st")
  case (Inl e)
  with assms show ?thesis by (simp add: handle_session_timeout_def)
next
  case (Inr st1)
  let ?y = "end_fields (set_ended t ''timeout'' (req_now rq)) (trackers st ! i)"
  from write_row_result [OF Inr] have st1: "st1 = st\<lparr>trackers := (trackers st)[i := ?y]\<rparr>" .
  have "status ?y \<noteq> Active" by (simp add: end_fields_def set_ended_def)
  then have "active_count u st1 \<le> active_count u st"
    unfolding st1 by (intro active_count_update_le) simp
  moreover have "active_count u (logout st1 rq) = active_count u st1"
    by (simp add: logout_def active_count_def)
  moreover have "session_count (logout st1 rq) = session_count st" "session_count st1 = session_count st"
    by (simp_all add: logout_def st1)
  ultimately show ?thesis using assms Inr
    by (auto simp: handle_session_timeout_def split: if_splits)
qed

lemma update_activity_tracking_count:
  assumes "update_activity_tracking st rq i t = (obj, st')"
  shows "active_count u st' = active_count u st \<and> session_count st' = session_count st"
proof (cases "write_row (req_faults rq) i (set_activity t (req_now rq)) activity_fields st")
  case (Inl e)
  with assms show ?thesis by (simp add: update_activity_tracking_def Let_def)
next
  case (Inr st1)
  let ?y = "activity_fields (set_activity t (req_now rq)) (trackers st ! i)"
  from write_row_result [OF Inr] have st1: "st1 = st\<lparr>trackers := (trackers st)[i := ?y]\<rparr>" .
  have "active_count u st1 = active_count u st"
    unfolding st1 by (intro active_count_update_same) (simp_all add: activity_fields_def)
  moreover have "session_count st1 = session_count st" by (simp add: st1)
  ultimately show ?thesis using assms Inr
    by (simp add: update_activity_tracking_def Let_def)
qed

lemma add_violations_count:
  "active_count u (add_violations fl i dt now acts obj st) = active_count u st
   \<and> session_count (add_violations fl i dt now acts obj st) = session_count st"
proof (induction acts arbitrary: obj st)
  case Nil
  then show ?case by simp
next
  case (Cons a acts)
  show ?case
  proof (cases "write_row fl i (set_violation obj a dt now) violation_fields st")
    case (Inl e)
    then show ?thesis by simp
  next
    case (Inr st1)
    let ?y = "violation_fields (set_violation obj a dt now) (trackers st ! i)"
    from write_row_result [OF Inr] have st1: "st1 = st\<lparr>trackers := (trackers st)[i := ?y]\<rparr>" .
    have "active_count u st1 = active_count u st"
      unfolding st1 by (intro active_count_update_same) (simp_all add: violation_fields_def)
    moreover have "session_count st1 = session_count st" by (simp add: st1)
    ultimately show ?thesis using Inr Cons.IH [of "set_violation obj a dt now" st1]
      by simp
  qed
qed


lemma length_get_active_sessions_for_user:
  "length (get_active_sessions_for_user (trackers st) u) = active_count u st"
  unfolding get_active_sessions_for_user_def active_count_def
  by (rule length_filter_positions)

lemma set_get_active_sessions_for_user:
  "set (get_active_sessions_for_user rows u)
     = {i. i < length rows \<and> user (rows ! i) = u \<and> status (rows ! i) = Active
           \<and> logout_time (rows ! i) = None}"
  by (auto simp: get_active_sessions_for_user_def)

lemma has_concurrent_sessions_active:
  assumes "has_concurrent_sessions fl st u k"
  shows "1 \<le> active_count u st"
proof -
  from assms have "get_active_sessions_for_user (trackers st) u \<noteq> []"
    by (auto simp: has_concurrent_sessions_def list_ex_iff split: if_splits)
  then have "0 < length (get_active_sessions_for_user (trackers st) u)" by simp
  then show ?thesis by (simp add: length_get_active_sessions_for_user)
qed

lemma no_concurrent_sessions_keys:
  assumes "\<not> has_concurrent_sessions [] st u k"
    and "t \<in> set (trackers st)" "user t = u" "status t = Active" "logout_time t = None"
  shows "session_key t = k"
proof -
  from assms(2) obtain i where i: "i < length (trackers st)" "trackers st ! i = t"
    by (auto simp: in_set_conv_nth)
  with assms have "i \<in> set (get_active_sessions_for_user (trackers st) u)"
    by (simp add: set_get_active_sessions_for_user)
  with assms(1) i show ?thesis
    by (auto simp: has_concurrent_sessions_def list_ex_iff)
qed

lemma deny_attempt:
  assumes "MAX_CONCURRENT_SESSIONS cfg = 1" "CONCURRENT_SESSION_POLICY cfg = ''deny''"
    and "count_cache_ok u st" "1 \<le> active_count u st"
  shows "\<exists>st1. handle_concurrent_session_attempt [] cfg st u True k now
           = Inr ((False, ''Multiple sessions not allowed. Please log out from other devices first.''), st1)
         \<and> trackers st1 = trackers st \<and> sessions st1 = sessions st \<and> count_cache_ok u st1"
proof (cases "cache_get (session_count st u) now")
  case None
  let ?c = "length (get_active_sessions_for_user (trackers st) u)"
  let ?st1 = "st\<lparr>session_count := (session_count st)(u := Some (?c, now + CACHE_TIMEOUT))\<rparr>"
  from assms(4) have c: "1 \<le> ?c" by (simp add: length_get_active_sessions_for_user)
  from None have "get_session_count_for_user [] st u now = Inr (?c, ?st1)"
    by (simp add: get_session_count_for_user_def Let_def)
  moreover from c have "get_active_sessions_for_user (trackers st) u \<noteq> []" by auto
  ultimately have "can_create_new_session [] cfg st u True now = Inr (False, ?st1)"
    using assms(1) by (simp add: can_create_new_session_def)
  with assms(2) have "handle_concurrent_session_attempt [] cfg st u True k now
           = Inr ((False, ''Multiple sessions not allowed. Please log out from other devices first.''), ?st1)"
    by (simp add: handle_concurrent_session_attempt_def)
  moreover from c have "count_cache_ok u ?st1" by (simp add: count_cache_ok_def)
  ultimately show ?thesis by simp
next
  case (Some c)
  with assms(3) have c: "1 \<le> c"
    by (auto simp: count_cache_ok_def cache_get_def split: option.splits if_splits)
  from Some have "get_session_count_for_user [] st u now = Inr (c, st)"
    by (simp add: get_session_count_for_user_def)
  with c assms(1) have "can_create_new_session [] cfg st u True now = Inr (False, st)"
    by (simp add: can_create_new_session_def)
  with assms(2) have "handle_concurrent_session_attempt [] cfg st u True k now
           = Inr ((False, ''Multiple sessions not allowed. Please log out from other devices first.''), st)"
    by (simp add: handle_concurrent_session_attempt_def)
  with assms(3) show ?thesis by simp
qed

lemma active_count_cong: "trackers a = trackers b \<Longrightarrow> active_count u a = active_count u b"
  by (simp add: active_count_def)

lemma count_cache_ok_cong:
  "session_count a = session_count b \<Longrightarrow> count_cache_ok u a = count_cache_ok u b"
  by (simp add: count_cache_ok_def)

lemma handle_concurrent_session_deny:
  assumes cfg: "MAX_CONCURRENT_SESSIONS cfg = 1" "CONCURRENT_SESSION_POLICY cfg = ''deny''"
    and inv: "count_cache_ok (req_user rq) st" "1 \<le> active_count (req_user rq) st"
    and rq: "req_faults rq = []" "req_authenticated rq"
    and res: "handle_concurrent_session cfg st rq i t = (r, st')"
  shows "active_count (req_user rq) st' \<le> active_count (req_user rq) st"
    and "count_cache_ok (req_user rq) st'"
    and "logout_time t = None \<Longrightarrow> login_time t \<le> req_now rq \<Longrightarrow>
         \<exists>y. trackers st' = (trackers st)[i := y] \<and> status y = Violation"
proof -
  let ?u = "req_user rq" and ?now = "req_now rq"
  let ?msg = "''Multiple sessions not allowed. Please log out from other devices first.''"
  let ?obj1 = "set_violation t ''concurrent_session'' [(''message'', Str ?msg)] ?now"
  let ?obj2 = "set_ended ?obj1 ''violation'' ?now"
  from deny_attempt [OF cfg inv, of "req_session_key rq" ?now] obtain st1 where
    a: "handle_concurrent_session_attempt [] cfg st ?u True (req_session_key rq) ?now
           = Inr ((False, ?msg), st1)"
    and st1: "trackers st1 = trackers st" "sessions st1 = sessions st" "count_cache_ok ?u st1"
    by blast
  have c1: "active_count ?u st1 = active_count ?u st"
    using st1(1) by (rule active_count_cong)
  have unfold: "handle_concurrent_session cfg st rq i t =
     (case write_row [] i ?obj1 violation_fields st1 of
        Inl e \<Rightarrow> (None, st1)
      | Inr st2 \<Rightarrow>
          (case write_row [] i ?obj2 end_fields st2 of
             Inl e \<Rightarrow> (None, st2)
           | Inr st3 \<Rightarrow> (Some (if req_ajax rq then JsonResponse 403 ?msg else Redirect_login),
                         logout st3 rq)))"
    using a rq by (simp add: handle_concurrent_session_def Let_def split: sum.splits)
  show "active_count ?u st' \<le> active_count ?u st"
    and "count_cache_ok ?u st'"
    and "logout_time t = None \<Longrightarrow> login_time t \<le> ?now \<Longrightarrow>
         \<exists>y. trackers st' = (trackers st)[i := y] \<and> status y = Violation"
  proof -
    consider (fail1) e where "write_row [] i ?obj1 violation_fields st1 = Inl e"
      | (fail2) st2 e where "write_row [] i ?obj1 violation_fields st1 = Inr st2"
          "write_row [] i ?obj2 end_fields st2 = Inl e"
      | (ok) st2 st3 where "write_row [] i ?obj1 violation_fields st1 = Inr st2"
          "write_row [] i ?obj2 end_fields st2 = Inr st3"
      by (metis sum.exhaust)
    then have main: "active_count ?u st' \<le> active_count ?u st \<and> count_cache_ok ?u st'
      \<and> (logout_time t = None \<and> login_time t \<le> ?now \<longrightarrow>
         (\<exists>y. trackers st' = (trackers st)[i := y] \<and> status y = Violation))"
    proof cases
      case fail1
      then have "\<not> clean ?obj1" by (simp add: write_row_def split: if_splits)
      then have "\<not> (logout_time t = None \<and> login_time t \<le> ?now)"
        by (auto simp: clean_def set_violation_def)
      moreover from fail1 unfold res have "st' = st1" by simp
      ultimately show ?thesis using c1 st1 by auto
    next
      case fail2
      let ?y1 = "violation_fields ?obj1 (trackers st1 ! i)"
      from write_row_result [OF fail2(1)]
      have st2: "st2 = st1\<lparr>trackers := (trackers st1)[i := ?y1]\<rparr>" .
      have c2: "active_count ?u st2 = active_count ?u st1"
        unfolding st2 by (intro active_count_update_same) (simp_all add: violation_fields_def)
      from fail2 have "\<not> clean ?obj2" by (simp add: write_row_def split: if_splits)
      then have "\<not> (logout_time t = None \<and> login_time t \<le> ?now)"
        by (auto simp: clean_def set_violation_def set_ended_def)
      moreover from fail2 unfold res have "st' = st2" by simp
      moreover have "count_cache_ok ?u st2" using st1(3) by (simp add: st2 count_cache_ok_def)
      ultimately show ?thesis using c1 c2 by auto
    next
      case ok
      let ?y1 = "violation_fields ?obj1 (trackers st1 ! i)"
      from write_row_result [OF ok(1)]
      have st2: "st2 = st1\<lparr>trackers := (trackers st1)[i := ?y1]\<rparr>" .
      let ?y2 = "end_fields ?obj2 (trackers st2 ! i)"
      from write_row_result [OF ok(2)]
      have st3: "st3 = st2\<lparr>trackers := (trackers st2)[i := ?y2]\<rparr>" .
      have c2: "active_count ?u st2 = active_count ?u st1"
        unfolding st2 by (intro active_count_update_same) (simp_all add: violation_fields_def)
      have y2: "status ?y2 = Violation" by (simp add: end_fields_def set_ended_def)
      then have c3: "active_count ?u st3 \<le> active_count ?u st2"
        unfolding st3 by (intro active_count_update_le) simp
      from ok unfold res have st': "st' = logout st3 rq" by simp
      have t': "trackers st' = (trackers st)[i := ?y2]"
        by (simp add: st' logout_def st3 st2 st1)
      have "active_count ?u st' = active_count ?u st3"
        by (rule active_count_cong) (simp add: st' logout_def)
      moreover have "count_cache_ok ?u st'"
        using st1(3) by (simp add: st' logout_def st3 st2 count_cache_ok_def)
      ultimately show ?thesis using c1 c2 c3 t' y2 by auto
    qed
    from main show "active_count ?u st' \<le> active_count ?u st" by blast
    from main show "count_cache_ok ?u st'" by blast
    from main show "logout_time t = None \<Longrightarrow> login_time t \<le> ?now \<Longrightarrow>
         \<exists>y. trackers st' = (trackers st)[i := y] \<and> status y = Violation" by blast
  qed
qed


lemma get_or_create_session_tracker_cases:
  assumes "get_or_create_session_tracker st rq = (res, st1)"
  obtains (absent) "res = None" "st1 = st"
    | (resolved) i where "res = Some (i, trackers st ! i)" "st1 = st" "i < length (trackers st)"
    | (created) "res = Some (length (trackers st), new_tracker rq)"
        "st1 = st\<lparr>trackers := trackers st @ [new_tracker rq]\<rparr>"
        "\<forall>t\<in>set (trackers st). \<not> (session_key t = req_session_key rq \<and> status t = Active)"
proof -
  let ?P = "\<lambda>t. session_key t = req_session_key rq \<and> status t = Active"
  let ?ids = "filter (\<lambda>i. ?P (trackers st ! i)) [0..<length (trackers st)]"
  show thesis
  proof (cases "GetTracker \<in> set (req_faults rq)")
    case True
    with assms have "res = None" "st1 = st" by (simp_all add: get_or_create_session_tracker_def)
    then show thesis by (rule absent)
  next
    case False
    show thesis
    proof (cases ?ids)
      case Nil
      then have none: "\<forall>t\<in>set (trackers st). \<not> ?P t"
        by (auto simp: filter_empty_conv in_set_conv_nth)
      from Nil False assms have c: "create_new_session_tracker st rq = (res, st1)"
        by (simp add: get_or_create_session_tracker_def)
      show thesis
      proof (cases res)
        case None
        with c have "st1 = st"
          by (auto simp: create_new_session_tracker_def split: if_splits)
        with None show thesis by (rule absent)
      next
        case (Some p)
        with c have "res = Some (length (trackers st), new_tracker rq)"
          "st1 = st\<lparr>trackers := trackers st @ [new_tracker rq]\<rparr>"
          by (auto simp: create_new_session_tracker_def split: if_splits)
        then show thesis using none by (rule created)
      qed
    next
      case (Cons i rest)
      then have "i \<in> set ?ids" by simp
      then have il: "i < length (trackers st)" by simp
      show thesis
      proof (cases rest)
        case Nil
        with Cons False assms have "res = Some (i, trackers st ! i)" "st1 = st"
          by (auto simp: get_or_create_session_tracker_def)
        then show thesis using il by (rule resolved)
      next
        case (Cons j rest')
        with \<open>?ids = i # rest\<close> False assms have "res = None" "st1 = st"
          by (simp_all add: get_or_create_session_tracker_def)
        then show thesis by (rule absent)
      qed
    qed
  qed
qed

lemma process_request_step:
  assumes cfg: "MAX_CONCURRENT_SESSIONS cfg = 1" "CONCURRENT_SESSION_POLICY cfg = ''deny''"
    and inv: "active_count u st \<le> 1" "count_cache_ok u st"
    and rq: "req_user rq = u" "req_faults rq = []"
  shows "active_count u (snd (process_request cfg st rq)) \<le> 1
    \<and> count_cache_ok u (snd (process_request cfg st rq))"
proof (cases "is_exempt_url (req_path rq) \<or> \<not> req_authenticated rq")
  case True
  with inv show ?thesis by (auto simp: process_request_def)
next
  case False
  then have auth: "req_authenticated rq" by simp
  obtain res st1 where g: "get_or_create_session_tracker st rq = (res, st1)"
    by (cases "get_or_create_session_tracker st rq")
  from g show ?thesis
  proof (cases rule: get_or_create_session_tracker_cases)
    case absent
    with g False inv show ?thesis by (simp add: process_request_def)
  next
    case (resolved i)
    let ?t = "trackers st ! i"
    from g False resolved have p: "process_request cfg st rq =
      (if mw_is_session_expired cfg (Some ?t) (req_now rq) then handle_session_timeout st rq i ?t
       else if has_concurrent_sessions [] st u (req_session_key rq)
       then handle_concurrent_session cfg st rq i ?t
       else case update_activity_tracking st rq i ?t of
              (obj, st2) \<Rightarrow> (None, monitor_suspicious_activity st2 rq i obj))"
      using rq by (simp add: process_request_def)
    show ?thesis
    proof (cases "mw_is_session_expired cfg (Some ?t) (req_now rq)")
      case True
      obtain r st' where h: "handle_session_timeout st rq i ?t = (r, st')"
        by (cases "handle_session_timeout st rq i ?t")
      from handle_session_timeout_count [OF h, of u] inv True p h show ?thesis
        by (simp add: count_cache_ok_def)
    next
      case nexp: False
      show ?thesis
      proof (cases "has_concurrent_sessions [] st u (req_session_key rq)")
        case True
        obtain r st' where h: "handle_concurrent_session cfg st rq i ?t = (r, st')"
          by (cases "handle_concurrent_session cfg st rq i ?t")
        from has_concurrent_sessions_active [OF True] have "1 \<le> active_count (req_user rq) st"
          using rq by simp
        from handle_concurrent_session_deny(1,2) [OF cfg _ this rq(2) auth h] inv rq
        have "active_count u st' \<le> active_count u st" "count_cache_ok u st'" by simp_all
        with inv nexp True p h show ?thesis by simp
      next
        case False
        obtain obj st2 where up: "update_activity_tracking st rq i ?t = (obj, st2)"
          by (cases "update_activity_tracking st rq i ?t")
        from update_activity_tracking_count [OF up, of u]
        have "active_count u st2 = active_count u st" "session_count st2 = session_count st"
          by simp_all
        with add_violations_count [of u "req_faults rq" i _ "req_now rq" _ obj st2] inv
        have "active_count u (monitor_suspicious_activity st2 rq i obj) \<le> 1
          \<and> count_cache_ok u (monitor_suspicious_activity st2 rq i obj)"
          by (simp add: monitor_suspicious_activity_def count_cache_ok_def)
        with nexp False p up show ?thesis by simp
      qed
    qed
  next
    case created
    let ?t = "new_tracker rq" and ?i = "length (trackers st)"
    have ut: "user ?t = u" "logout_time ?t = None" "login_time ?t = req_now rq"
      "session_key ?t = req_session_key rq"
      using rq by (simp_all add: new_tracker_def)
    have c1: "active_count u st1 \<le> 2"
      using inv by (simp add: created active_count_def)
    have k1: "count_cache_ok u st1" using inv by (simp add: created count_cache_ok_def)
    have ended: "active_count u st' \<le> 1"
      if "trackers st' = (trackers st1)[?i := y]" "status y \<noteq> Active" for st' y
    proof -
      from that(1) have "trackers st' = trackers st @ [y]" by (simp add: created)
      then show ?thesis using that(2) inv by (simp add: active_count_def)
    qed
    from g False created have p: "process_request cfg st rq =
      (if mw_is_session_expired cfg (Some ?t) (req_now rq) then handle_session_timeout st1 rq ?i ?t
       else if has_concurrent_sessions [] st1 u (req_session_key rq)
       then handle_concurrent_session cfg st1 rq ?i ?t
       else case update_activity_tracking st1 rq ?i ?t of
              (obj, st2) \<Rightarrow> (None, monitor_suspicious_activity st2 rq ?i obj))"
      using rq by (simp add: process_request_def)
    show ?thesis
    proof (cases "mw_is_session_expired cfg (Some ?t) (req_now rq)")
      case True
      have cl: "clean (set_ended ?t ''timeout'' (req_now rq))"
        by (simp add: clean_def set_ended_def new_tracker_def)
      let ?y = "end_fields (set_ended ?t ''timeout'' (req_now rq)) (trackers st1 ! ?i)"
      let ?st' = "logout (st1\<lparr>trackers := (trackers st1)[?i := ?y]\<rparr>) rq"
      from write_row_ok [OF cl, of ?i end_fields st1] rq
      have h: "snd (handle_session_timeout st1 rq ?i ?t) = ?st'"
        by (simp add: handle_session_timeout_def)
      have "active_count u ?st' \<le> 1"
        by (rule ended [of _ ?y]) (simp_all add: logout_def end_fields_def set_ended_def)
      moreover have "count_cache_ok u ?st'" using k1 by (simp add: logout_def count_cache_ok_def)
      ultimately show ?thesis using True p h by simp
    next
      case nexp: False
      show ?thesis
      proof (cases "has_concurrent_sessions [] st1 u (req_session_key rq)")
        case True
        obtain r st' where h: "handle_concurrent_session cfg st1 rq ?i ?t = (r, st')"
          by (cases "handle_concurrent_session cfg st1 rq ?i ?t")
        from has_concurrent_sessions_active [OF True] have a: "1 \<le> active_count (req_user rq) st1"
          using rq by simp
        from k1 rq have k: "count_cache_ok (req_user rq) st1" by simp
        from handle_concurrent_session_deny(2) [OF cfg k a rq(2) auth h] rq
        have "count_cache_ok u st'" by simp
        moreover from handle_concurrent_session_deny(3) [OF cfg k a rq(2) auth h] ut
        obtain y where "trackers st' = (trackers st1)[?i := y]" "status y = Violation" by auto
        then have "active_count u st' \<le> 1" by (intro ended [of st' y]) simp_all
        ultimately show ?thesis using nexp True p h by simp
      next
        case False
        have "filter (\<lambda>t. user t = u \<and> status t = Active \<and> logout_time t = None) (trackers st) = []"
        proof (rule ccontr)
          assume "\<not> ?thesis"
          then obtain t where t: "t \<in> set (trackers st)" "user t = u" "status t = Active"
            "logout_time t = None"
            by (auto simp: filter_empty_conv)
          then have "t \<in> set (trackers st1)" by (simp add: created)
          from no_concurrent_sessions_keys [OF False this t(2,3,4)]
          have "session_key t = req_session_key rq" .
          with created(3) t show False by blast
        qed
        then have one: "active_count u st1 \<le> 1"
          by (simp add: created active_count_def)
        obtain obj st2 where up: "update_activity_tracking st1 rq ?i ?t = (obj, st2)"
          by (cases "update_activity_tracking st1 rq ?i ?t")
        from update_activity_tracking_count [OF up, of u]
        have "active_count u st2 = active_count u st1" "session_count st2 = session_count st1"
          by simp_all
        with add_violations_count [of u "req_faults rq" ?i _ "req_now rq" _ obj st2] one k1
        have "active_count u (monitor_suspicious_activity st2 rq ?i obj) \<le> 1
          \<and> count_cache_ok u (monitor_suspicious_activity st2 rq ?i obj)"
          by (simp add: monitor_suspicious_activity_def count_cache_ok_def)
        with nexp False p up show ?thesis by simp
      qed
    qed
  qed
qed


lemma run_invariant:
  assumes "MAX_CONCURRENT_SESSIONS cfg = 1" "CONCURRENT_SESSION_POLICY cfg = ''deny''"
    and "active_count u st \<le> 1" "count_cache_ok u st"
    and "\<forall>rq\<in>set rqs. req_user rq = u \<and> req_faults rq = []"
  shows "active_count u (run cfg st rqs) \<le> 1 \<and> count_cache_ok u (run cfg st rqs)"
  using assms(3-)
proof (induction rqs arbitrary: st)
  case Nil
  then show ?case by simp
next
  case (Cons rq rqs)
  from Cons.prems have "req_user rq = u" "req_faults rq = []" by simp_all
  from process_request_step [OF assms(1,2) Cons.prems(1,2) this]
  have "active_count u (snd (process_request cfg st rq)) \<le> 1"
    "count_cache_ok u (snd (process_request cfg st rq))" by simp_all
  from Cons.IH [OF this] Cons.prems(3) show ?case by simp
qed

text \<open>
  Claim C1. With \<^verbatim>\<open>MAX_CONCURRENT_SESSIONS = 1\<close> and the policy \<^verbatim>\<open>deny\<close>, serve any sequence
  of requests of one user, each as one step of \<^verbatim>\<open>process_request\<close> (resolve or create the
  tracker, test for concurrent sessions, on denial end the new attempt as a violation),
  with the store available. Starting from a state in which the user has at most one active
  tracker and no cached session count below one (the empty store is such a state), the user
  has at most one tracker with status active and no logout time at the end of every step.
\<close>

theorem deny_policy_single_active:
  assumes "MAX_CONCURRENT_SESSIONS cfg = 1" "CONCURRENT_SESSION_POLICY cfg = ''deny''"
    and "active_count u st \<le> 1" "count_cache_ok u st"
    and "\<forall>rq\<in>set rqs. req_user rq = u \<and> req_faults rq = []"
  shows "\<forall>n\<le>length rqs. active_count u (run cfg st (take n rqs)) \<le> 1"
proof (intro allI impI)
  fix n assume "n \<le> length rqs"
  have "\<forall>rq\<in>set (take n rqs). req_user rq = u \<and> req_faults rq = []"
    using assms(5) by (meson in_set_takeD)
  from run_invariant [OF assms(1-4) this]
  show "active_count u (run cfg st (take n rqs)) \<le> 1" by simp
qed

theorem deny_policy_single_active_witness:
  "active_count 1 initial_state = 0
   \<and> active_count 1 (run default_settings initial_state [second_login\<lparr>req_session_key := ''s1'', req_now := 0\<rparr>]) = 1
   \<and> active_count 1 (run default_settings initial_state
        [second_login\<lparr>req_session_key := ''s1'', req_now := 0\<rparr>, second_login]) = 1
   \<and> map status (trackers (run default_settings initial_state
        [second_login\<lparr>req_session_key := ''s1'', req_now := 0\<rparr>, second_login]))
       = [Active, Violation]"
proof -
  let ?rqs = "[second_login\<lparr>req_session_key := ''s1'', req_now := 0\<rparr>, second_login]"
  have cfg: "MAX_CONCURRENT_SESSIONS default_settings = 1"
    "CONCURRENT_SESSION_POLICY default_settings = ''deny''"
    by (simp_all add: default_settings_def)
  have st: "active_count 1 initial_state \<le> 1" "count_cache_ok 1 initial_state"
    by (simp_all add: initial_state_def active_count_def count_cache_ok_def)
  have rqs: "\<forall>rq\<in>set ?rqs. req_user rq = 1 \<and> req_faults rq = []"
    by (simp add: second_login_def)
  have 0: "active_count 1 initial_state = 0"
    by (simp add: initial_state_def active_count_def)
  have 1: "1 \<le> active_count 1 (run default_settings initial_state (take 1 ?rqs))"
    by code_simp
  have 2: "1 \<le> active_count 1 (run default_settings initial_state (take 2 ?rqs))"
    by code_simp
  have 3: "map status (trackers (run default_settings initial_state ?rqs)) = [Active, Violation]"
    by code_simp
  have l: "(1::nat) \<le> length ?rqs" "(2::nat) \<le> length ?rqs" by simp_all
  from deny_policy_single_active [OF cfg st rqs] l
  have "active_count 1 (run default_settings initial_state (take 1 ?rqs)) \<le> 1"
    "active_count 1 (run default_settings initial_state (take 2 ?rqs)) \<le> 1"
    by blast+
  with 1 2 have "active_count 1 (run default_settings initial_state (take 1 ?rqs)) = 1"
    "active_count 1 (run default_settings initial_state (take 2 ?rqs)) = 1"
    by linarith+
  moreover have "take 1 ?rqs = [second_login\<lparr>req_session_key := ''s1'', req_now := 0\<rparr>]"
    "take 2 ?rqs = ?rqs" by simp_all
  ultimately show ?thesis using 0 3 by simp
qed

section \<open>Store failure during the concurrency check\<close>

text \<open>
  Claim C4 says that a store failure during the concurrency check reaches the caller as an
  error and never lets the session through. User 1 has the active session \<open>s1\<close>; a request
  under the new key \<open>s2\<close> is served while the query for other active sessions raises. The
  middleware returns no response, so the request goes on, and both trackers are active.
  The same request with the store available is redirected to the login page and its
  tracker ended as a violation.
\<close>

theorem store_failure_allows_counterexample:
  "fst (process_request default_settings one_active_state
          (second_login\<lparr>req_faults := [ExistsOthers]\<rparr>)) = None
   \<and> map session_key (trackers (snd (process_request default_settings one_active_state
          (second_login\<lparr>req_faults := [ExistsOthers]\<rparr>)))) = [''s1'', ''s2'']
   \<and> map status (trackers (snd (process_request default_settings one_active_state
          (second_login\<lparr>req_faults := [ExistsOthers]\<rparr>)))) = [Active, Active]
   \<and> active_count 1 (snd (process_request default_settings one_active_state
          (second_login\<lparr>req_faults := [ExistsOthers]\<rparr>))) = 2
   \<and> fst (process_request default_settings one_active_state second_login) = Some Redirect_login
   \<and> map status (trackers (snd (process_request default_settings one_active_state second_login)))
       = [Active, Violation]"
  by code_simp

text \<open>
  Claim C4 as amended. When the query of \<^verbatim>\<open>_has_concurrent_sessions\<close> raises, the check
  answers that there are no concurrent sessions. When the count of active sessions raises
  inside \<^verbatim>\<open>_handle_concurrent_session\<close>, the handler returns no response and changes
  nothing. In the first case the request that has a tracker and is not timed out is served
  to the end: no response short-circuits it and no tracker of any user changes between
  active and ended. No error reaches the caller in either case.
\<close>

theorem store_failure_fails_open:
  "(ExistsOthers \<in> set fl \<longrightarrow> \<not> has_concurrent_sessions fl st u k)
   \<and> (CountActive \<in> set (req_faults rq) \<and> req_authenticated rq
        \<and> cache_get (session_count st (req_user rq)) (req_now rq) = None
        \<longrightarrow> handle_concurrent_session cfg st rq i t = (None, st))
   \<and> (ExistsOthers \<in> set (req_faults rq) \<and> \<not> is_exempt_url (req_path rq)
        \<and> req_authenticated rq
        \<and> get_or_create_session_tracker st rq = (Some (i, t), st1)
        \<and> \<not> mw_is_session_expired cfg (Some t) (req_now rq)
        \<longrightarrow> fst (process_request cfg st rq) = None
            \<and> active_count u (snd (process_request cfg st rq)) = active_count u st1)"
proof (intro conjI impI)
  assume "ExistsOthers \<in> set fl"
  then show "\<not> has_concurrent_sessions fl st u k"
    by (simp add: has_concurrent_sessions_def)
next
  assume a: "CountActive \<in> set (req_faults rq) \<and> req_authenticated rq
        \<and> cache_get (session_count st (req_user rq)) (req_now rq) = None"
  then have "get_session_count_for_user (req_faults rq) st (req_user rq) (req_now rq)
      = Inl DatabaseError"
    by (simp add: get_session_count_for_user_def)
  with a have "handle_concurrent_session_attempt (req_faults rq) cfg st (req_user rq)
      (req_authenticated rq) (req_session_key rq) (req_now rq) = Inl DatabaseError"
    by (simp add: handle_concurrent_session_attempt_def can_create_new_session_def)
  then show "handle_concurrent_session cfg st rq i t = (None, st)"
    by (simp add: handle_concurrent_session_def)
next
  assume a: "ExistsOthers \<in> set (req_faults rq) \<and> \<not> is_exempt_url (req_path rq)
        \<and> req_authenticated rq
        \<and> get_or_create_session_tracker st rq = (Some (i, t), st1)
        \<and> \<not> mw_is_session_expired cfg (Some t) (req_now rq)"
  then have nc: "\<not> has_concurrent_sessions (req_faults rq) st1 (req_user rq) (req_session_key rq)"
    by (simp add: has_concurrent_sessions_def)
  obtain obj st2 where up: "update_activity_tracking st1 rq i t = (obj, st2)"
    by (cases "update_activity_tracking st1 rq i t")
  from a nc up have p: "process_request cfg st rq = (None, monitor_suspicious_activity st2 rq i obj)"
    by (simp add: process_request_def)
  from update_activity_tracking_count [OF up, of u]
  have "active_count u st2 = active_count u st1" by simp
  with add_violations_count [of u "req_faults rq" i _ "req_now rq" _ obj st2]
  have "active_count u (monitor_suspicious_activity st2 rq i obj) = active_count u st1"
    by (simp add: monitor_suspicious_activity_def)
  with p show "fst (process_request cfg st rq) = None" 
    and "active_count u (snd (process_request cfg st rq)) = active_count u st1"
    by simp_all
qed

theorem store_failure_fails_open_witness:
  "ExistsOthers \<in> set [ExistsOthers]
   \<and> \<not> has_concurrent_sessions [ExistsOthers] one_active_state 1 ''s2''
   \<and> has_concurrent_sessions [] one_active_state 1 ''s2''
   \<and> handle_concurrent_session default_settings one_active_state
        (second_login\<lparr>req_faults := [CountActive]\<rparr>) 0 (session ''s1'' 0 0)
       = (None, one_active_state)
   \<and> fst (process_request default_settings one_active_state
        (second_login\<lparr>req_faults := [ExistsOthers]\<rparr>)) = None
   \<and> active_count 1 (snd (process_request default_settings one_active_state
        (second_login\<lparr>req_faults := [ExistsOthers]\<rparr>))) = 2"
proof -
  let ?rq = "second_login\<lparr>req_faults := [ExistsOthers]\<rparr>"
  let ?rq' = "second_login\<lparr>req_faults := [CountActive]\<rparr>"
  let ?st1 = "one_active_state\<lparr>trackers := trackers one_active_state @ [new_tracker ?rq]\<rparr>"
  have h1: "ExistsOthers \<in> set [ExistsOthers]" by simp
  have h2: "CountActive \<in> set (req_faults ?rq') \<and> req_authenticated ?rq'
        \<and> cache_get (session_count one_active_state (req_user ?rq')) (req_now ?rq') = None"
    by (simp add: second_login_def one_active_state_def cache_get_def)
  have g: "get_or_create_session_tracker one_active_state ?rq
      = (Some (1, new_tracker ?rq), ?st1)"
    by (simp add: get_or_create_session_tracker_def create_new_session_tracker_def
        one_active_state_def second_login_def session_def)
  have h3: "ExistsOthers \<in> set (req_faults ?rq) \<and> \<not> is_exempt_url (req_path ?rq)
        \<and> req_authenticated ?rq
        \<and> get_or_create_session_tracker one_active_state ?rq = (Some (1, new_tracker ?rq), ?st1)
        \<and> \<not> mw_is_session_expired default_settings (Some (new_tracker ?rq)) (req_now ?rq)"
    using g by (simp add: second_login_def is_exempt_url_def EXEMPT_URLS_def startswith_def
        mw_is_session_expired_def new_tracker_def default_settings_def minutes_def)
  have c: "active_count 1 ?st1 = 2"
    by (simp add: active_count_def one_active_state_def new_tracker_def second_login_def
        session_def)
  have e: "has_concurrent_sessions [] one_active_state 1 ''s2''"
    by code_simp
  note t = store_failure_fails_open
    [where fl = "[ExistsOthers]" and st = one_active_state and u = 1 and k = "''s2''"
       and rq = ?rq' and cfg = default_settings and i = 0 and t = "session ''s1'' 0 0"]
  note t' = store_failure_fails_open
    [where fl = "[ExistsOthers]" and st = one_active_state and u = 1 and k = "''s2''"
       and rq = ?rq and cfg = default_settings and i = 1 and t = "new_tracker ?rq"
       and ?st1.0 = ?st1]
  from t h1 h2 have 1: "\<not> has_concurrent_sessions [ExistsOthers] one_active_state 1 ''s2''"
    "handle_concurrent_session default_settings one_active_state ?rq' 0 (session ''s1'' 0 0)
       = (None, one_active_state)" by blast+
  from t' h3 have 2: "fst (process_request default_settings one_active_state ?rq) = None"
    "active_count 1 (snd (process_request default_settings one_active_state ?rq))
       = active_count 1 ?st1" by blast+
  from h1 1 2 c e show ?thesis by simp
qed

section \<open>The policy replace_oldest\<close>

lemma order_by_login_time_first:
  assumes "ids \<noteq> []" "sorted ids"
  obtains j rest where "order_by_login_time rows ids = j # rest" "j \<in> set ids"
    "\<forall>i\<in>set ids. login_time (rows ! j) \<le> login_time (rows ! i)"
    "\<forall>i\<in>set ids. login_time (rows ! i) = login_time (rows ! j) \<longrightarrow> j \<le> i"
proof -
  let ?f = "\<lambda>i. login_time (rows ! i)"
  from assms(1) have "sort_key ?f ids \<noteq> []"
    by (metis length_sort length_0_conv)
  then obtain j rest where s: "sort_key ?f ids = j # rest" by (cases "sort_key ?f ids") auto
  have set_eq: "set (j # rest) = set ids" using s by (metis set_sort)
  then have j: "j \<in> set ids" by auto
  have "sorted (map ?f (j # rest))" using s by (metis sorted_sort_key)
  then have "\<forall>i\<in>set rest. ?f j \<le> ?f i" by simp
  with set_eq have min: "\<forall>i\<in>set ids. ?f j \<le> ?f i" by auto
  have "filter (\<lambda>y. ?f y = ?f j) (sort_key ?f ids) = filter (\<lambda>y. ?f y = ?f j) ids"
    by (rule sort_key_stable)
  with s have fl: "filter (\<lambda>y. ?f y = ?f j) ids = j # filter (\<lambda>y. ?f y = ?f j) rest"
    by simp
  have "sorted (filter (\<lambda>y. ?f y = ?f j) ids)" using sorted_filter [of "\<lambda>x. x" ids] assms(2) by simp
  with fl have "\<forall>i\<in>set (filter (\<lambda>y. ?f y = ?f j) rest). j \<le> i" by simp
  then have "\<forall>i\<in>set (filter (\<lambda>y. ?f y = ?f j) ids). j \<le> i" unfolding fl by simp
  then have tie: "\<forall>i\<in>set ids. ?f i = ?f j \<longrightarrow> j \<le> i" by simp
  from s j min tie show thesis
    by (intro that [of j rest]) (simp_all add: order_by_login_time_def)
qed


lemma sorted_get_active_sessions_for_user: "sorted (get_active_sessions_for_user rows u)"
  unfolding get_active_sessions_for_user_def
  using sorted_filter [of "\<lambda>x. x" "[0..<length rows]"] by simp

lemma at_limit_cannot_create:
  assumes "MAX_CONCURRENT_SESSIONS cfg \<le> int (active_count u st)"
    and "\<forall>c. cache_get (session_count st u) now = Some c \<longrightarrow> MAX_CONCURRENT_SESSIONS cfg \<le> int c"
  obtains st1 where "can_create_new_session [] cfg st u True now = Inr (False, st1)"
    "trackers st1 = trackers st" "sessions st1 = sessions st"
proof (cases "cache_get (session_count st u) now")
  case None
  let ?c = "length (get_active_sessions_for_user (trackers st) u)"
  let ?st1 = "st\<lparr>session_count := (session_count st)(u := Some (?c, now + CACHE_TIMEOUT))\<rparr>"
  from assms(1) have "\<not> int ?c < MAX_CONCURRENT_SESSIONS cfg"
    by (simp add: length_get_active_sessions_for_user)
  with None have "can_create_new_session [] cfg st u True now = Inr (False, ?st1)"
    by (simp add: can_create_new_session_def get_session_count_for_user_def Let_def)
  then show thesis by (rule that) simp_all
next
  case (Some c)
  with assms(2) have "\<not> int c < MAX_CONCURRENT_SESSIONS cfg" by auto
  with Some have "can_create_new_session [] cfg st u True now = Inr (False, st)"
    by (simp add: can_create_new_session_def get_session_count_for_user_def)
  then show thesis by (rule that) simp_all
qed

text \<open>
  Claim C2 as amended. Under the policy \<^verbatim>\<open>replace_oldest\<close>, let the user be at the limit
  (at least as many active trackers as \<^verbatim>\<open>MAX_CONCURRENT_SESSIONS\<close>, at least one, and no
  smaller count still cached), the store be available, and the user's active trackers
  validate (login time not after the clock, valid violation log). Then the decision ends
  exactly one tracker \<open>j\<close>: an active one of the user with the smallest login time, and among
  those with that login time the one the table yields first (not the one with the lowest
  session key). Row \<open>j\<close> gets the logout time and status inactive, every other row is
  unchanged, so the other active sessions stay active; the transport session of \<open>j\<close> is
  deleted; and the new session is permitted.
\<close>

theorem replace_oldest_spec:
  assumes pol: "CONCURRENT_SESSION_POLICY cfg = ''replace_oldest''"
    and limit: "MAX_CONCURRENT_SESSIONS cfg \<le> int (active_count u st)" "0 < active_count u st"
    and cache: "\<forall>c. cache_get (session_count st u) now = Some c
                  \<longrightarrow> MAX_CONCURRENT_SESSIONS cfg \<le> int c"
    and valid: "\<forall>i\<in>set (get_active_sessions_for_user (trackers st) u).
                  login_time (trackers st ! i) \<le> now
                  \<and> violation_details (trackers st ! i) \<noteq> Malformed"
  shows "\<exists>j st2.
      handle_concurrent_session_attempt [] cfg st u True k now
        = Inr ((True, ''Oldest session terminated, new session allowed''), st2)
      \<and> j \<in> set (get_active_sessions_for_user (trackers st) u)
      \<and> (\<forall>i\<in>set (get_active_sessions_for_user (trackers st) u).
            login_time (trackers st ! j) \<le> login_time (trackers st ! i)
            \<and> (login_time (trackers st ! i) = login_time (trackers st ! j) \<longrightarrow> j \<le> i))
      \<and> trackers st2
          = (trackers st)[j := (trackers st ! j)\<lparr>logout_time := Some now, status := Inactive\<rparr>]
      \<and> session_key (trackers st ! j) \<notin> fst ` set (sessions st2)
      \<and> set (get_active_sessions_for_user (trackers st2) u)
          = set (get_active_sessions_for_user (trackers st) u) - {j}"
proof -
  let ?rows = "trackers st"
  let ?ids = "get_active_sessions_for_user ?rows u"
  from at_limit_cannot_create [OF limit(1) cache] obtain st1 where
    c: "can_create_new_session [] cfg st u True now = Inr (False, st1)"
    and st1: "trackers st1 = ?rows" "sessions st1 = sessions st"
    by blast
  from limit(2) have ne: "?ids \<noteq> []"
    using length_get_active_sessions_for_user [of st u] by auto
  from order_by_login_time_first [OF ne sorted_get_active_sessions_for_user, of ?rows]
  obtain j rest where
    o: "order_by_login_time ?rows ?ids = j # rest" and j: "j \<in> set ?ids"
    and least: "\<forall>i\<in>set ?ids. login_time (?rows ! j) \<le> login_time (?rows ! i)"
    and tie: "\<forall>i\<in>set ?ids. login_time (?rows ! i) = login_time (?rows ! j) \<longrightarrow> j \<le> i"
    by blast
  let ?t' = "(?rows ! j)\<lparr>logout_time := Some now, status := Inactive\<rparr>"
  from j have jl: "j < length ?rows" "user (?rows ! j) = u"
    by (simp_all add: set_get_active_sessions_for_user)
  have se: "set_ended (?rows ! j) ''new_session_limit'' now = ?t'"
    by (simp add: set_ended_def)
  from valid j have "login_time (?rows ! j) \<le> now" "violation_details (?rows ! j) \<noteq> Malformed"
    by blast+
  then have "clean ?t'" by (simp add: clean_def)
  with se have e: "end_session (?rows ! j) ''new_session_limit'' now = Inr ?t'"
    by (simp add: end_session_def save_def)
  let ?st2 = "st1\<lparr>trackers := ?rows[j := ?t'],
                  sessions := delete_session (session_key (?rows ! j)) (sessions st1),
                  session_count := (session_count st1)(u := None)\<rparr>"
  from o e st1 have "end_oldest_session_for_user [] st1 u ''new_session_limit'' now = (True, ?st2)"
    by (simp add: end_oldest_session_for_user_def Let_def)
  with c pol have h: "handle_concurrent_session_attempt [] cfg st u True k now
        = Inr ((True, ''Oldest session terminated, new session allowed''), ?st2)"
    by (simp add: handle_concurrent_session_attempt_def)
  have t: "trackers ?st2 = ?rows[j := ?t']" by simp
  have d: "session_key (?rows ! j) \<notin> fst ` set (sessions ?st2)"
    by (auto simp: delete_session_def)
  have a: "set (get_active_sessions_for_user (trackers ?st2) u) = set ?ids - {j}"
    unfolding t
  proof (rule set_eqI)
    fix i
    show "(i \<in> set (get_active_sessions_for_user (?rows[j := ?t']) u)) = (i \<in> set ?ids - {j})"
    proof (cases "i = j")
      case True
      with jl show ?thesis by (simp add: set_get_active_sessions_for_user)
    next
      case False
      then show ?thesis by (simp add: set_get_active_sessions_for_user)
    qed
  qed
  from h j least tie t d a show ?thesis by blast
qed

text \<open>
  Claim C2 says that among active sessions with the same login time the one with the
  lexically lowest session key is ended. User 1 has two active sessions with login time 0,
  \<open>b\<close> stored before \<open>a\<close>, at a limit of two. Deciding on a third session ends \<open>b\<close> and
  leaves \<open>a\<close> active, both when the decision is called on its own and when the middleware
  serves the request of the third session; \<open>a\<close> is the lower key.
\<close>

theorem replace_oldest_tie_counterexample:
  "map session_key (trackers tied_state) = [''b'', ''a'']
   \<and> map login_time (trackers tied_state) = [0, 0]
   \<and> map status (trackers tied_state) = [Active, Active]
   \<and> str_le ''a'' ''b'' \<and> \<not> str_le ''b'' ''a''
   \<and> fst (projr (handle_concurrent_session_attempt [] replace_settings tied_state 1 True ''c'' 10))
       = (True, ''Oldest session terminated, new session allowed'')
   \<and> map session_key (trackers (snd (projr
         (handle_concurrent_session_attempt [] replace_settings tied_state 1 True ''c'' 10))))
       = [''b'', ''a'']
   \<and> map status (trackers (snd (projr
         (handle_concurrent_session_attempt [] replace_settings tied_state 1 True ''c'' 10))))
       = [Inactive, Active]
   \<and> fst (process_request replace_settings tied_state third_login) = None
   \<and> map session_key (trackers (snd (process_request replace_settings tied_state third_login)))
       = [''b'', ''a'', ''c'']
   \<and> map status (trackers (snd (process_request replace_settings tied_state third_login)))
       = [Inactive, Active, Active]"
  by code_simp

theorem replace_oldest_spec_witness:
  "active_count 1 tied_state = 2
   \<and> get_active_sessions_for_user (trackers tied_state) 1 = [0, 1]
   \<and> fst (projr (handle_concurrent_session_attempt [] replace_settings tied_state 1 True ''c'' 10))
       = (True, ''Oldest session terminated, new session allowed'')
   \<and> trackers (snd (projr
         (handle_concurrent_session_attempt [] replace_settings tied_state 1 True ''c'' 10)))
       = [(session ''b'' 0 0)\<lparr>logout_time := Some 10, status := Inactive\<rparr>, session ''a'' 0 0]
   \<and> ''b'' \<notin> fst ` set (sessions (snd (projr
         (handle_concurrent_session_attempt [] replace_settings tied_state 1 True ''c'' 10))))"
proof -
  have pol: "CONCURRENT_SESSION_POLICY replace_settings = ''replace_oldest''"
    by (simp add: replace_settings_def)
  have ac: "active_count 1 tied_state = 2"
    by (simp add: active_count_def tied_state_def session_def)
  have ids: "get_active_sessions_for_user (trackers tied_state) 1 = [0, 1]"
    by code_simp
  have limit: "MAX_CONCURRENT_SESSIONS replace_settings \<le> int (active_count 1 tied_state)"
    "0 < active_count 1 tied_state"
    unfolding ac by (simp_all add: replace_settings_def)
  have cache: "\<forall>c. cache_get (session_count tied_state 1) 10 = Some c
                  \<longrightarrow> MAX_CONCURRENT_SESSIONS replace_settings \<le> int c"
    by (simp add: tied_state_def cache_get_def)
  have valid: "\<forall>i\<in>set (get_active_sessions_for_user (trackers tied_state) 1).
                  login_time (trackers tied_state ! i) \<le> 10
                  \<and> violation_details (trackers tied_state ! i) \<noteq> Malformed"
    unfolding ids by (simp add: tied_state_def session_def)
  from replace_oldest_spec [OF pol limit cache valid, of "''c''"]
  obtain j st2 where
    h: "handle_concurrent_session_attempt [] replace_settings tied_state 1 True ''c'' 10
          = Inr ((True, ''Oldest session terminated, new session allowed''), st2)"
    and j: "j \<in> set (get_active_sessions_for_user (trackers tied_state) 1)"
    and tie: "\<forall>i\<in>set (get_active_sessions_for_user (trackers tied_state) 1).
            login_time (trackers tied_state ! j) \<le> login_time (trackers tied_state ! i)
            \<and> (login_time (trackers tied_state ! i) = login_time (trackers tied_state ! j) \<longrightarrow> j \<le> i)"
    and t: "trackers st2 = (trackers tied_state)
              [j := (trackers tied_state ! j)\<lparr>logout_time := Some 10, status := Inactive\<rparr>]"
    and d: "session_key (trackers tied_state ! j) \<notin> fst ` set (sessions st2)"
    by blast
  from tie have "login_time (trackers tied_state ! 0) = login_time (trackers tied_state ! j) \<longrightarrow> j \<le> 0"
    unfolding ids by simp
  moreover from j have "j = 0 \<or> j = 1" unfolding ids by simp
  ultimately have j0: "j = 0" by (auto simp: tied_state_def session_def)
  from t have "trackers st2 = [(session ''b'' 0 0)\<lparr>logout_time := Some 10, status := Inactive\<rparr>,
                           session ''a'' 0 0]"
    by (simp add: j0 tied_state_def)
  moreover from d have "''b'' \<notin> fst ` set (sessions st2)"
    by (simp add: j0 tied_state_def session_def)
  ultimately show ?thesis using ac ids h by simp
qed

end
